theory Spec2Isabelle
  imports Complex_Main "HOL-Library.Log_Nat" "HOL-Library.AList"
begin

section \<open>JavaScript numbers\<close>

text \<open>
  Every number of the program is a JavaScript \<open>number\<close>, an IEEE 754 double.  A finite
  double is a rational, and each arithmetic operation returns the exact result rounded to
  the nearest double, ties to the even significand.  \<open>fl\<close> is that rounding for values
  in the range of normal doubles (53-bit significand; overflow to infinity and
  subnormals lie far outside every value met here).  For \<open>x > 0\<close>, \<open>ilog2 x\<close> is the
  integer \<open>e\<close> with \<open>2 ^ e \<le> x < 2 ^ (e + 1)\<close>.
\<close>

type_synonym number = rat

definition ilog2 :: "rat \<Rightarrow> int" where
  "ilog2 x = (if 1 \<le> x then bitlen \<lfloor>x\<rfloor> - 1 else - bitlen (\<lceil>1 / x\<rceil> - 1))"

definition round_half_even :: "rat \<Rightarrow> int" where
  "round_half_even x =
     (let f = \<lfloor>x\<rfloor>; d = x - of_int f
      in if d < 1 / 2 then f else if 1 / 2 < d then f + 1 else if even f then f else f + 1)"

definition pow2 :: "int \<Rightarrow> rat" where
  "pow2 e = (if 0 \<le> e then 2 ^ nat e else 1 / 2 ^ nat (- e))"

definition fl :: "rat \<Rightarrow> number" where
  "fl x = (if x = 0 then 0
           else let u = pow2 (ilog2 \<bar>x\<bar> - 52) in of_int (round_half_even (x / u)) * u)"

definition js_add :: "number \<Rightarrow> number \<Rightarrow> number" where
  "js_add x y = fl (x + y)"

definition js_sub :: "number \<Rightarrow> number \<Rightarrow> number" where
  "js_sub x y = fl (x - y)"

definition js_mul :: "number \<Rightarrow> number \<Rightarrow> number" where
  "js_mul x y = fl (x * y)"

definition js_div :: "number \<Rightarrow> number \<Rightarrow> number" where
  "js_div x y = fl (x / y)"

definition Math_floor :: "number \<Rightarrow> number" where
  "Math_floor x = of_int \<lfloor>x\<rfloor>"

text \<open>
  \<open>xs[i]\<close> on a JavaScript array: the element when \<open>i\<close> is an index of the array,
  \<open>undefined\<close> (\<open>None\<close>) otherwise.
\<close>

definition js_index :: "'a list \<Rightarrow> number \<Rightarrow> 'a option" where
  "js_index xs i =
     (if 0 \<le> i \<and> of_int \<lfloor>i\<rfloor> = i \<and> nat \<lfloor>i\<rfloor> < length xs then Some (xs ! nat \<lfloor>i\<rfloor>) else None)"

section \<open>Object identities and tracking links\<close>

text \<open>
  Segments, tracking groups, sequences and Revertables are JavaScript objects that are
  compared by reference.  Each is modelled by its identity, a natural number.
\<close>

type_synonym seg = nat
type_synonym tg = nat
type_synonym seq_id = nat
type_synonym rev_id = nat

text \<open>
  Modelled from the spec: the classes \<open>TrackingGroup\<close> and \<open>TrackingCollection\<close> of the
  merge-tree engine are not part of the sources.  The spec describes a tracking group as
  a mutable set of segment links with a size, where a segment may belong to any number of
  groups and unlinking one group from a segment never affects another group.  The links
  of all groups are kept in one table, a list of (group, segment) pairs in the order in
  which they were linked; \<open>tg_segments\<close> is the array \<open>TrackingGroup.segments\<close> and
  \<open>trackingGroups\<close> is the set \<open>segment.trackingCollection.trackingGroups\<close> in
  insertion order, which is the order in which JavaScript's \<open>Set.forEach\<close> visits it.
\<close>

type_synonym link_table = "(tg \<times> seg) list"

definition tg_segments :: "link_table \<Rightarrow> tg \<Rightarrow> seg list" where
  "tg_segments L g = map snd (filter (\<lambda>p. fst p = g) L)"

definition tg_size :: "link_table \<Rightarrow> tg \<Rightarrow> nat" where
  "tg_size L g = length (tg_segments L g)"

definition trackingGroups :: "link_table \<Rightarrow> seg \<Rightarrow> tg list" where
  "trackingGroups L s = map fst (filter (\<lambda>p. snd p = s) L)"

text \<open>Modelled from the spec: \<open>TrackingGroup.link(segment)\<close>; linking twice is idempotent.\<close>

definition tg_link :: "tg \<Rightarrow> seg \<Rightarrow> link_table \<Rightarrow> link_table" where
  "tg_link g s L = (if (g, s) \<in> set L then L else L @ [(g, s)])"

text \<open>Modelled from the spec: \<open>TrackingGroup.unlink(segment)\<close>.\<close>

definition tg_unlink :: "tg \<Rightarrow> seg \<Rightarrow> link_table \<Rightarrow> link_table" where
  "tg_unlink g s L = removeAll (g, s) L"

text \<open>
  Modelled from the spec: \<open>segment.trackingCollection.unlink(group)\<close>, the same link
  removed from the segment's side.
\<close>

definition tc_unlink :: "seg \<Rightarrow> tg \<Rightarrow> link_table \<Rightarrow> link_table" where
  "tc_unlink s g L = removeAll (g, s) L"

section \<open>Property sets and delta events\<close>

text \<open>
  A \<open>PropertySet\<close> is a JavaScript object from keys to values; a range's
  \<open>propertyDeltas\<close> may be \<open>undefined\<close> (\<open>None\<close>).
\<close>

type_synonym PropertySet = "(string \<times> string) list"

text \<open>
  Modelled from the spec: \<open>matchProperties\<close> of the merge-tree engine is not part of the
  sources; the spec calls two property deltas matching when they are property-wise equal.
  Two absent property sets match, an absent one never matches a present one.
\<close>

fun matchProperties :: "PropertySet option \<Rightarrow> PropertySet option \<Rightarrow> bool" where
  "matchProperties None None = True"
| "matchProperties (Some a) (Some b) =
     (list_all (\<lambda>k. map_of b k = map_of a k) (map fst a) \<and>
      list_all (\<lambda>k. map_of a k = map_of b k) (map fst b))"
| "matchProperties _ _ = False"

text \<open>
  The operation kinds of \<open>MergeTreeDeltaType\<close>; \<open>OTHER\<close> stands for every kind of the
  engine that is neither insert, remove nor annotate (group and maintenance operations).
\<close>

datatype MergeTreeDeltaType = INSERT | REMOVE | ANNOTATE | OTHER nat

record range =
  segment :: seg
  propertyDeltas :: "PropertySet option"

record SequenceDeltaEvent =
  isLocal :: bool
  deltaOperation :: MergeTreeDeltaType
  ranges :: "range list"

section \<open>The Revertable: recording\<close>

text \<open>\<open>ITrackedSharedSegmentSequenceRevertable\<close>.\<close>

record tracked =
  trackingGroup :: tg
  propertyDelta :: "PropertySet option"
  operation :: MergeTreeDeltaType

text \<open>
  The part of the object heap that \<open>add\<close> and \<open>disgard\<close> touch: the Revertable's array
  \<open>tracking\<close>, the link table, and the number of \<open>TrackingGroup\<close> objects constructed so
  far (the identity of the next \<open>new TrackingGroup()\<close>).
\<close>

record recorder =
  tracking :: "tracked list"
  links :: link_table
  fresh_tg :: tg

text \<open>
  One iteration of the loop \<open>for (const range of event.ranges)\<close> of \<open>add\<close>.  The local
  variable \<open>current\<close> is passed along and returned with the heap.
\<close>

definition add_range ::
  "MergeTreeDeltaType \<Rightarrow> range \<Rightarrow> tracked option \<times> 'a recorder_scheme
     \<Rightarrow> tracked option \<times> 'a recorder_scheme" where
  "add_range dop r cs =
     (case cs of (current, st) \<Rightarrow>
        (case current of
           Some c \<Rightarrow>
             if operation c = dop \<and> matchProperties (propertyDelta c) (propertyDeltas r)
             then (current, st\<lparr>links := tg_link (trackingGroup c) (segment r) (links st)\<rparr>)
             else
               (let g = fresh_tg st;
                    c' = \<lparr>trackingGroup = g, propertyDelta = propertyDeltas r, operation = dop\<rparr>
                in (Some c', st\<lparr>links := tg_link g (segment r) (links st),
                                fresh_tg := Suc g,
                                tracking := tracking st @ [c']\<rparr>))
         | None \<Rightarrow>
             (let g = fresh_tg st;
                  c' = \<lparr>trackingGroup = g, propertyDelta = propertyDeltas r, operation = dop\<rparr>
              in (Some c', st\<lparr>links := tg_link g (segment r) (links st),
                              fresh_tg := Suc g,
                              tracking := tracking st @ [c']\<rparr>))))"

text \<open>\<open>SharedSegmentSequenceRevertable.add\<close>.\<close>

definition add :: "SequenceDeltaEvent \<Rightarrow> 'a recorder_scheme \<Rightarrow> 'a recorder_scheme" where
  "add event st =
     (if length (ranges event) > 0
      then snd (fold (add_range (deltaOperation event)) (ranges event)
                  (if length (tracking st) > 0 then Some (last (tracking st)) else None, st))
      else st)"

text \<open>
  The value of the local variable \<open>current\<close> when \<open>add\<close> starts its loop: the last entry
  of \<open>tracking\<close>, or \<open>undefined\<close>.
\<close>

definition tail_entry :: "'a recorder_scheme \<Rightarrow> tracked option" where
  "tail_entry st = (if length (tracking st) > 0 then Some (last (tracking st)) else None)"

text \<open>
  A well-formed heap: every tracking group that occurs in the link table or in an entry is
  an object that was constructed, so its identity lies below \<open>fresh_tg\<close>.
\<close>

definition allocated :: "'a recorder_scheme \<Rightarrow> bool" where
  "allocated st =
     (list_all (\<lambda>p. fst p < fresh_tg st) (links st) \<and>
      list_all (\<lambda>t. trackingGroup t < fresh_tg st) (tracking st))"

section \<open>The Revertable: revert and disgard\<close>

text \<open>
  The sequence engine (\<open>SharedSegmentSequence\<close> and the segments' own fields) is not part
  of the sources and is taken as a parameter: the queries and primitives that \<open>revert\<close>
  calls, over an engine state \<open>'e\<close>.  \<open>'j\<close> is the serialized form of a segment.
  \<open>segmentFromSpec\<close> returns the identity of the segment it constructs, or \<open>None\<close>
  when it throws on an unrecognized shape.  The engine's primitives act on the engine
  state only; tracking links change through \<open>link\<close> and \<open>unlink\<close> alone.
\<close>

datatype ReferenceType = Simple | Transient

datatype LocalReference = LocalReference seg number ReferenceType

record ('e, 'j) sequence_engine =
  getPosition :: "'e \<Rightarrow> seg \<Rightarrow> number"
  removedSeq :: "'e \<Rightarrow> seg \<Rightarrow> number option"
  cachedLength :: "'e \<Rightarrow> seg \<Rightarrow> number"
  toJSONObject :: "'e \<Rightarrow> seg \<Rightarrow> 'j"
  segmentFromSpec :: "'e \<Rightarrow> 'j \<Rightarrow> seg option"
  removeRange :: "number \<Rightarrow> number \<Rightarrow> 'e \<Rightarrow> 'e"
  insertAtReferencePosition :: "LocalReference \<Rightarrow> seg \<Rightarrow> 'e \<Rightarrow> 'e"
  annotateRange :: "number \<Rightarrow> number \<Rightarrow> PropertySet option \<Rightarrow> 'e \<Rightarrow> 'e"

text \<open>A Revertable together with its sequence.\<close>

record 'e revertable = recorder +
  sequence :: 'e

datatype error = OperationTypeNotRevertable | UnrecognizedIJSONObject | UnrecognizedSegmentType
  | TypeError

text \<open>
  How a call ends: it returns, or it throws.  A JavaScript exception undoes nothing, so
  both carry the state reached.
\<close>

datatype 'a completion = Normal 'a | Throw error 'a

text \<open>The state a call ends in.\<close>

fun state_of :: "'a completion \<Rightarrow> 'a" where
  "state_of (Normal s) = s"
| "state_of (Throw e s) = s"

text \<open>
  The \<open>forEach\<close> over \<open>sg.trackingCollection.trackingGroups\<close> in the remove case: each
  group is linked to the inserted segment and unlinked from the old one.
\<close>

definition migrate_groups :: "seg \<Rightarrow> seg \<Rightarrow> link_table \<Rightarrow> link_table" where
  "migrate_groups sg insertSegment L =
     fold (\<lambda>g L'. tg_unlink g sg (tg_link g insertSegment L')) (trackingGroups L sg) L"

text \<open>
  The body of the inner loop of \<open>revert\<close> for the segment \<open>sg = segments[0]\<close>: the unlink
  and the \<open>switch\<close>.  The annotate case has no \<open>break\<close> and runs on into the
  \<open>default\<close> case.
\<close>

definition revert_segment ::
  "('e, 'j) sequence_engine \<Rightarrow> tracked \<Rightarrow> seg \<Rightarrow> 'e revertable \<Rightarrow> 'e revertable completion"
  where
  "revert_segment E t sg st0 =
     (let st = st0\<lparr>links := tc_unlink sg (trackingGroup t) (links st0)\<rparr>;
          e = sequence st
      in case operation t of
           INSERT \<Rightarrow>
             if removedSeq E e sg = None
             then (let start = getPosition E e sg
                   in Normal (st\<lparr>sequence :=
                        removeRange E start (js_add start (cachedLength E e sg)) e\<rparr>))
             else Normal st
         | REMOVE \<Rightarrow>
             (case segmentFromSpec E e (toJSONObject E e sg) of
                None \<Rightarrow> Throw UnrecognizedIJSONObject st
              | Some insertSegment \<Rightarrow>
                  Normal (st\<lparr>sequence :=
                              insertAtReferencePosition E (LocalReference sg 0 Transient)
                                insertSegment e,
                            links := migrate_groups sg insertSegment (links st)\<rparr>))
         | ANNOTATE \<Rightarrow>
             Throw OperationTypeNotRevertable
               (if removedSeq E e sg = None
                then (let start = getPosition E e sg
                      in st\<lparr>sequence :=
                           annotateRange E start (js_add start (cachedLength E e sg))
                             (propertyDelta t) e\<rparr>)
                else st)
         | OTHER k \<Rightarrow> Throw OperationTypeNotRevertable st)"

text \<open>
  The inner loop \<open>while (tracked.trackingGroup.size > 0)\<close>.  A loop that never ends has
  the value \<open>None\<close>.
\<close>

partial_function (option) revert_group ::
  "('e, 'j) sequence_engine \<Rightarrow> tracked \<Rightarrow> 'e revertable \<Rightarrow> 'e revertable completion option"
  where
  "revert_group E t st =
     (if tg_size (links st) (trackingGroup t) > 0
      then (case revert_segment E t (hd (tg_segments (links st) (trackingGroup t))) st of
              Normal st' \<Rightarrow> revert_group E t st'
            | Throw err st' \<Rightarrow> Some (Throw err st'))
      else Some (Normal st))"

text \<open>\<open>SharedSegmentSequenceRevertable.revert\<close>: the outer loop pops the last entry.\<close>

partial_function (option) revert ::
  "('e, 'j) sequence_engine \<Rightarrow> 'e revertable \<Rightarrow> 'e revertable completion option"
  where
  "revert E st =
     (if length (tracking st) > 0
      then (case revert_group E (last (tracking st)) (st\<lparr>tracking := butlast (tracking st)\<rparr>) of
              None \<Rightarrow> None
            | Some (Normal st') \<Rightarrow> revert E st'
            | Some (Throw err st') \<Rightarrow> Some (Throw err st'))
      else Some (Normal st))"

text \<open>The inner loop of \<open>disgard\<close>.\<close>

partial_function (option) disgard_group :: "tg \<Rightarrow> link_table \<Rightarrow> link_table option" where
  "disgard_group g L =
     (if tg_size L g > 0
      then disgard_group g (tg_unlink g (hd (tg_segments L g)) L)
      else Some L)"

text \<open>\<open>SharedSegmentSequenceRevertable.disgard\<close>.\<close>

partial_function (option) disgard :: "'a recorder_scheme \<Rightarrow> 'a recorder_scheme option" where
  "disgard st =
     (if length (tracking st) > 0
      then (case disgard_group (trackingGroup (last (tracking st))) (links st) of
              None \<Rightarrow> None
            | Some L \<Rightarrow> disgard (st\<lparr>tracking := butlast (tracking st), links := L\<rparr>))
      else Some st)"

text \<open>
  An engine that only records the calls made to it, for running the model on concrete
  inputs: segment \<open>s\<close> sits at position \<open>10 * s\<close> with length \<open>10\<close>, the segments in
  the list \<open>gone\<close> carry a removal marker, a segment serializes to its identity, and the
  segment reconstructed from \<open>j\<close> has the identity \<open>j + 100\<close>.
\<close>

datatype engine_call =
  RemoveRange number number
  | InsertAtReferencePosition LocalReference seg
  | AnnotateRange number number "PropertySet option"

definition recording_engine :: "seg list \<Rightarrow> (engine_call list, seg) sequence_engine" where
  "recording_engine gone =
     \<lparr>getPosition = (\<lambda>e s. 10 * of_nat s),
      removedSeq = (\<lambda>e s. if s \<in> set gone then Some 1 else None),
      cachedLength = (\<lambda>e s. 10),
      toJSONObject = (\<lambda>e s. s),
      segmentFromSpec = (\<lambda>e j. Some (j + 100)),
      removeRange = (\<lambda>a b e. e @ [RemoveRange a b]),
      insertAtReferencePosition = (\<lambda>r s e. e @ [InsertAtReferencePosition r s]),
      annotateRange = (\<lambda>a b p e. e @ [AnnotateRange a b p])\<rparr>"

section \<open>The Handler\<close>

text \<open>
  The state a \<open>SharedSegmentSequenceUndoRedoHandler\<close> works on: its map \<open>sequences\<close>
  (an association list; a sequence without an entry reads \<open>undefined\<close>), the Revertable
  objects constructed so far with their owning sequence and their \<open>tracking\<close> array
  (the index is the identity), the link table and the group counter.

  Modelled from the spec: \<open>UndoRedoStackManager\<close> is not part of the sources;
  \<open>pushToCurrentOperation\<close> registers the Revertable as a frame of the current operation,
  recorded here in the list \<open>pushed\<close>.
\<close>

record handler =
  sequences :: "(seq_id \<times> rev_id) list"
  pushed :: "rev_id list"
  revertables :: "(seq_id \<times> tracked list) list"
  h_links :: link_table
  h_fresh_tg :: tg

text \<open>
  \<open>revertable.add(event)\<close> on the Revertable object \<open>r\<close> of the handler's heap.  A
  reference always points to an object that was constructed, so \<open>r\<close> is an index of the
  list; for any other \<open>r\<close> the state is left as it is.
\<close>

definition handler_add :: "rev_id \<Rightarrow> SequenceDeltaEvent \<Rightarrow> handler \<Rightarrow> handler" where
  "handler_add r event H =
     (if r < length (revertables H)
      then (let st = add event \<lparr>tracking = snd (revertables H ! r), links = h_links H,
                                fresh_tg = h_fresh_tg H\<rparr>
            in H\<lparr>revertables := (revertables H)[r := (fst (revertables H ! r), tracking st)],
                 h_links := links st, h_fresh_tg := fresh_tg st\<rparr>)
      else H)"

text \<open>The callback \<open>sequenceDeltaHandler\<close>.\<close>

definition sequenceDeltaHandler :: "SequenceDeltaEvent \<Rightarrow> seq_id \<Rightarrow> handler \<Rightarrow> handler" where
  "sequenceDeltaHandler event target H =
     (if isLocal event
      then (case map_of (sequences H) target of
              None \<Rightarrow>
                (let r = length (revertables H);
                     H1 = H\<lparr>revertables := revertables H @ [(target, [])]\<rparr>;
                     H2 = H1\<lparr>pushed := pushed H1 @ [r]\<rparr>;
                     H3 = H2\<lparr>sequences := AList.update target r (sequences H2)\<rparr>
                 in handler_add r event H3)
            | Some r \<Rightarrow> handler_add r event H)
      else H)"

section \<open>The sparse matrix\<close>

type_synonym SparseMatrixItem = string

text \<open>
  The segments of the matrix: a \<open>RunSegment\<close> with its items and their tags, a
  \<open>PaddingSegment\<close> with its length, and \<open>ForeignSegment\<close> for a segment of any other
  class, with the string of its field \<open>type\<close>.
\<close>

datatype MatrixSegment =
  RunSegment "SparseMatrixItem list" "string option list"
  | PaddingSegment number
  | ForeignSegment string

fun segment_type :: "MatrixSegment \<Rightarrow> string" where
  "segment_type (RunSegment its tgs) = ''RunSegment''"
| "segment_type (PaddingSegment n) = ''PaddingSegment''"
| "segment_type (ForeignSegment ty) = ty"

text \<open>The field \<open>items\<close>, \<open>undefined\<close> on a segment that has none.\<close>

fun segment_items :: "MatrixSegment \<Rightarrow> SparseMatrixItem list option" where
  "segment_items (RunSegment its tgs) = Some its"
| "segment_items _ = None"

definition RunSegment_is :: "MatrixSegment \<Rightarrow> bool" where
  "RunSegment_is s = (segment_type s = ''RunSegment'')"

definition PaddingSegment_is :: "MatrixSegment \<Rightarrow> bool" where
  "PaddingSegment_is s = (segment_type s = ''PaddingSegment'')"

definition maxCol :: number where
  "maxCol = 2097152"

definition maxCols :: number where
  "maxCols = js_add maxCol 1"

definition maxRow :: number where
  "maxRow = 4294967295"

definition maxRows :: number where
  "maxRows = js_add maxRow 1"

definition maxCellPosition :: number where
  "maxCellPosition = js_mul maxCol maxRow"

definition rowColToPosition :: "number \<Rightarrow> number \<Rightarrow> number" where
  "rowColToPosition row col = js_add (js_mul row maxCols) col"

definition positionToRowCol :: "number \<Rightarrow> number \<times> number" where
  "positionToRowCol position =
     (let row = Math_floor (js_div position maxCols);
          col = js_sub position (js_mul row maxCols)
      in (row, col))"

text \<open>
  The engine under a \<open>SparseMatrix\<close>, taken as a parameter over an engine state \<open>'e\<close>
  and the engine's operation messages \<open>'o\<close>.  \<open>getContainingSegment\<close> is \<open>None\<close> when
  no segment resolves (the engine returns an \<open>undefined\<close> segment).  \<open>removeRangeLocal\<close>
  and \<open>insertSegmentLocal\<close> return what the client returns, a message or \<open>undefined\<close>
  (\<open>None\<close>), together with the local state after the edit.  \<open>createGroupOp\<close> packs the
  values it is given into one grouped operation.
\<close>

record ('e, 'o) matrix_client =
  getLength :: "'e \<Rightarrow> number"
  getContainingSegment :: "'e \<Rightarrow> number \<Rightarrow> (MatrixSegment \<times> number) option"
  removeRangeLocal :: "number \<Rightarrow> number \<Rightarrow> 'e \<Rightarrow> 'o option \<times> 'e"
  insertSegmentLocal :: "number \<Rightarrow> MatrixSegment \<Rightarrow> 'e \<Rightarrow> 'o option \<times> 'e"
  createGroupOp :: "'o option list \<Rightarrow> 'o"
  submitSequenceMessage :: "'o \<Rightarrow> 'e \<Rightarrow> 'e"

text \<open>The getter \<open>numRows\<close>.\<close>

definition numRows :: "('e, 'o) matrix_client \<Rightarrow> 'e \<Rightarrow> number" where
  "numRows C e = fst (positionToRowCol (getLength C e))"

text \<open>
  \<open>SparseMatrix.getItem\<close>.  The result \<open>Inr None\<close> is \<open>undefined\<close>.  Reading a field of
  an \<open>undefined\<close> value throws a \<open>TypeError\<close>.
\<close>

definition getItem ::
  "('e, 'o) matrix_client \<Rightarrow> 'e \<Rightarrow> number \<Rightarrow> number \<Rightarrow> error + SparseMatrixItem option"
  where
  "getItem C e row col =
     (let pos = rowColToPosition row col
      in case getContainingSegment C e pos of
           None \<Rightarrow> Inl TypeError
         | Some (sgm, offset) \<Rightarrow>
             if RunSegment_is sgm
             then (case segment_items sgm of
                     None \<Rightarrow> Inl TypeError
                   | Some its \<Rightarrow> Inr (js_index its offset))
             else if PaddingSegment_is sgm then Inr None
             else Inl UnrecognizedSegmentType)"

text \<open>
  The \<open>for\<close> loop of \<open>moveAsPadding\<close> with its variables \<open>r\<close>, \<open>rowStart\<close> and \<open>ops\<close>;
  the condition reads the getter \<open>numRows\<close> anew in every iteration, and \<open>ops\<close> receives
  whatever the two calls of the client return.  The array \<open>ops\<close> is a list of any
  length.  A loop that never ends has the value \<open>None\<close>.
\<close>

partial_function (option) moveAsPadding_rows ::
  "('e, 'o) matrix_client \<Rightarrow> number \<Rightarrow> number \<Rightarrow> number \<Rightarrow> number \<Rightarrow> number \<Rightarrow> number
     \<Rightarrow> 'o option list \<Rightarrow> 'e \<Rightarrow> ('o option list \<times> 'e) option" where
  "moveAsPadding_rows C removeColStart removeColEnd destCol numCols r rowStart ops e =
     (if r < numRows C e
      then (case removeRangeLocal C (js_add rowStart removeColStart)
                   (js_add rowStart removeColEnd) e of
              (op1, e1) \<Rightarrow>
                (let ops1 = ops @ [op1];
                     insertPos = js_add rowStart destCol;
                     padding = PaddingSegment numCols
                 in case insertSegmentLocal C insertPos padding e1 of
                      (op2, e2) \<Rightarrow>
                        moveAsPadding_rows C removeColStart removeColEnd destCol numCols
                          (js_add r 1) (js_add rowStart maxCols) (ops1 @ [op2]) e2))
      else Some (ops, e))"

text \<open>\<open>SparseMatrix.moveAsPadding\<close>.\<close>

definition moveAsPadding ::
  "('e, 'o) matrix_client \<Rightarrow> number \<Rightarrow> number \<Rightarrow> number \<Rightarrow> 'e \<Rightarrow> 'e option" where
  "moveAsPadding C srcCol destCol numCols e =
     (let removeColStart = srcCol;
          removeColEnd = js_add srcCol numCols
      in case moveAsPadding_rows C removeColStart removeColEnd destCol numCols 0 0 [] e of
           None \<Rightarrow> None
         | Some (ops, e') \<Rightarrow> Some (submitSequenceMessage C (createGroupOp C ops) e'))"

definition insertCols ::
  "('e, 'o) matrix_client \<Rightarrow> number \<Rightarrow> number \<Rightarrow> 'e \<Rightarrow> 'e option" where
  "insertCols C col numCols e = moveAsPadding C (js_sub maxCol numCols) col numCols e"

definition removeCols ::
  "('e, 'o) matrix_client \<Rightarrow> number \<Rightarrow> number \<Rightarrow> 'e \<Rightarrow> 'e option" where
  "removeCols C col numCols e = moveAsPadding C col (js_sub maxCol numCols) numCols e"

text \<open>
  The spec's words for \<open>moveAsPadding\<close>, with exact arithmetic: for every existing row
  \<open>r\<close> with \<open>rowStart = r * maxCols\<close> (\<open>maxCols = 2097153\<close>), remove
  \<open>[rowStart + src, rowStart + src + n)\<close>, then insert a fresh padding segment of length
  \<open>n\<close> at \<open>rowStart + dest\<close>; all these operations are submitted as one grouped
  operation.  \<open>spec_rows\<close> performs the two edits on each row of a list of rows and
  collects what they return; \<open>R\<close> is the number of existing rows.
\<close>

fun spec_rows ::
  "('e, 'o) matrix_client \<Rightarrow> nat \<Rightarrow> nat \<Rightarrow> nat \<Rightarrow> nat list \<Rightarrow> 'e \<Rightarrow> 'o option list \<times> 'e" where
  "spec_rows C src dest n [] e = ([], e)"
| "spec_rows C src dest n (r # rs) e =
     (case removeRangeLocal C (of_nat (r * 2097153 + src)) (of_nat (r * 2097153 + src + n)) e of
        (op1, e1) \<Rightarrow>
          (case insertSegmentLocal C (of_nat (r * 2097153 + dest)) (PaddingSegment (of_nat n)) e1 of
             (op2, e2) \<Rightarrow>
               (case spec_rows C src dest n rs e2 of (ops, e') \<Rightarrow> (op1 # op2 # ops, e'))))"

definition spec_moveAsPadding ::
  "('e, 'o) matrix_client \<Rightarrow> nat \<Rightarrow> nat \<Rightarrow> nat \<Rightarrow> nat \<Rightarrow> 'e \<Rightarrow> 'e" where
  "spec_moveAsPadding C src dest n R e =
     (case spec_rows C src dest n [0..<R] e of
        (ops, e') \<Rightarrow> submitSequenceMessage C (createGroupOp C ops) e')"

text \<open>The messages of the two engines below.\<close>

datatype matrix_op =
  RemoveRangeOp number number
  | InsertSegmentOp number MatrixSegment
  | GroupOp "matrix_op option list"

text \<open>
  A small engine over a list of segments, for running the matrix on concrete inputs:
  positions are resolved by walking the list, a removal cuts the positions out of the
  segments, an insertion splits the segment at the position, and a submitted message is
  appended to a log.
\<close>

fun segment_length :: "MatrixSegment \<Rightarrow> number" where
  "segment_length (RunSegment its tgs) = of_nat (length its)"
| "segment_length (PaddingSegment n) = n"
| "segment_length (ForeignSegment ty) = 1"

fun locate :: "MatrixSegment list \<Rightarrow> number \<Rightarrow> (MatrixSegment \<times> number) option" where
  "locate [] p = None"
| "locate (s # ss) p =
     (if p < segment_length s then Some (s, p) else locate ss (p - segment_length s))"

fun head_of :: "number \<Rightarrow> MatrixSegment \<Rightarrow> MatrixSegment" where
  "head_of k (RunSegment its tgs) = RunSegment (take (nat \<lfloor>k\<rfloor>) its) (take (nat \<lfloor>k\<rfloor>) tgs)"
| "head_of k (PaddingSegment n) = PaddingSegment k"
| "head_of k (ForeignSegment ty) = ForeignSegment ty"

fun tail_of :: "number \<Rightarrow> MatrixSegment \<Rightarrow> MatrixSegment" where
  "tail_of k (RunSegment its tgs) = RunSegment (drop (nat \<lfloor>k\<rfloor>) its) (drop (nat \<lfloor>k\<rfloor>) tgs)"
| "tail_of k (PaddingSegment n) = PaddingSegment (n - k)"
| "tail_of k (ForeignSegment ty) = ForeignSegment ty"

fun remove_positions :: "number \<Rightarrow> number \<Rightarrow> MatrixSegment list \<Rightarrow> MatrixSegment list" where
  "remove_positions a b [] = []"
| "remove_positions a b (s # ss) =
     (let n = segment_length s
      in (if 0 < a then [head_of (min a n) s] else [])
         @ (if b < n then [tail_of (max b 0) s] else [])
         @ remove_positions (a - n) (b - n) ss)"

fun insert_at :: "number \<Rightarrow> MatrixSegment \<Rightarrow> MatrixSegment list \<Rightarrow> MatrixSegment list" where
  "insert_at p x [] = [x]"
| "insert_at p x (s # ss) =
     (let n = segment_length s
      in if p \<le> 0 then x # s # ss
         else if n \<le> p then s # insert_at (p - n) x ss
         else head_of p s # x # tail_of p s # ss)"

definition list_client :: "(MatrixSegment list \<times> matrix_op list, matrix_op) matrix_client" where
  "list_client =
     \<lparr>getLength = (\<lambda>e. sum_list (map segment_length (fst e))),
      getContainingSegment = (\<lambda>e p. locate (fst e) p),
      removeRangeLocal =
        (\<lambda>a b e. (Some (RemoveRangeOp a b), (remove_positions a b (fst e), snd e))),
      insertSegmentLocal =
        (\<lambda>p x e. if segment_length x \<le> 0 then (None, e)
                  else (Some (InsertSegmentOp p x), (insert_at p x (fst e), snd e))),
      createGroupOp = GroupOp,
      submitSequenceMessage = (\<lambda>m e. (fst e, snd e @ [m]))\<rparr>"


section \<open>Tracking links: unlinking and group sizes\<close>

lemma hd_tg_segments_linked:
  assumes "tg_size L g > 0"
  shows "(g, hd (tg_segments L g)) \<in> set L"
proof -
  from assms obtain p ps where f: "filter (\<lambda>p. fst p = g) L = p # ps"
    by (cases "filter (\<lambda>p. fst p = g) L") (auto simp: tg_size_def tg_segments_def)
  then have "p \<in> set (filter (\<lambda>p. fst p = g) L)" by simp
  then have "p \<in> set L" "fst p = g" by auto
  moreover have "hd (tg_segments L g) = snd p" by (simp add: tg_segments_def f)
  ultimately show ?thesis by (metis prod.collapse)
qed

lemma tg_size_removeAll_less:
  assumes "(g, s) \<in> set L"
  shows "tg_size (removeAll (g, s) L) g < tg_size L g"
proof -
  have "filter (\<lambda>p. fst p = g) (removeAll (g, s) L)
        = filter (\<lambda>p. p \<noteq> (g, s)) (filter (\<lambda>p. fst p = g) L)"
    by (induction L) auto
  moreover have "(g, s) \<in> set (filter (\<lambda>p. fst p = g) L)" using assms by simp
  ultimately show ?thesis
    using length_filter_less [of "(g, s)" "filter (\<lambda>p. fst p = g) L" "\<lambda>p. p \<noteq> (g, s)"]
    by (simp only: tg_size_def tg_segments_def length_map not_not)
qed

lemma filter_other_removeAll:
  "filter (\<lambda>p. fst p \<noteq> g) (removeAll (g, s) L) = filter (\<lambda>p. fst p \<noteq> g) L"
  by (induction L) auto

lemma tg_segments_removeAll_other:
  "g' \<noteq> g \<Longrightarrow> tg_segments (removeAll (g', s) L) g = tg_segments L g"
  by (induction L) (auto simp: tg_segments_def)

lemma tg_segments_link_other:
  "g' \<noteq> g \<Longrightarrow> tg_segments (tg_link g' s L) g = tg_segments L g"
  by (simp add: tg_segments_def tg_link_def)

lemma tg_segments_fold_migrate:
  "g \<notin> set gs \<Longrightarrow>
   tg_segments (fold (\<lambda>g' L'. tg_unlink g' sg (tg_link g' ins L')) gs L) g = tg_segments L g"
  by (induction gs arbitrary: L)
     (auto simp: tg_unlink_def tg_segments_removeAll_other tg_segments_link_other)

lemma trackingGroups_removeAll:
  "g \<notin> set (trackingGroups (removeAll (g, s) L) s)"
  by (induction L) (auto simp: trackingGroups_def)

lemma tg_segments_migrate:
  "tg_segments (migrate_groups sg ins (tc_unlink sg g L)) g = tg_segments (tc_unlink sg g L) g"
  unfolding migrate_groups_def tc_unlink_def
  by (rule tg_segments_fold_migrate) (rule trackingGroups_removeAll)

lemma disgard_group_eq: "disgard_group g L = Some (filter (\<lambda>p. fst p \<noteq> g) L)"
proof (induction "tg_size L g" arbitrary: L rule: less_induct)
  case less
  show ?case
  proof (cases "tg_size L g > 0")
    case True
    let ?s = "hd (tg_segments L g)"
    have mem: "(g, ?s) \<in> set L" using True by (rule hd_tg_segments_linked)
    have "tg_size (tg_unlink g ?s L) g < tg_size L g"
      unfolding tg_unlink_def using mem by (rule tg_size_removeAll_less)
    then have "disgard_group g (tg_unlink g ?s L) = Some (filter (\<lambda>p. fst p \<noteq> g) (tg_unlink g ?s L))"
      by (rule less)
    moreover have "filter (\<lambda>p. fst p \<noteq> g) (tg_unlink g ?s L) = filter (\<lambda>p. fst p \<noteq> g) L"
      unfolding tg_unlink_def by (rule filter_other_removeAll)
    ultimately show ?thesis using True by (subst disgard_group.simps) simp
  next
    case False
    then have "filter (\<lambda>p. fst p = g) L = []" by (simp add: tg_size_def tg_segments_def)
    then have "filter (\<lambda>p. fst p \<noteq> g) L = L"
      by (induction L) (auto split: if_splits)
    then show ?thesis using False by (subst disgard_group.simps) simp
  qed
qed


lemma disgard_eq:
  "disgard st =
     Some (st\<lparr>tracking := [],
              links := filter (\<lambda>p. fst p \<notin> trackingGroup ` set (tracking st)) (links st)\<rparr>)"
proof (induction "length (tracking st)" arbitrary: st)
  case 0
  then show ?case by (subst disgard.simps) simp
next
  case (Suc n)
  then have ne: "tracking st \<noteq> []" by auto
  let ?t = "last (tracking st)"
  let ?L = "filter (\<lambda>p. fst p \<noteq> trackingGroup ?t) (links st)"
  let ?st1 = "st\<lparr>tracking := butlast (tracking st), links := ?L\<rparr>"
  have len: "n = length (tracking ?st1)" using Suc.hyps(2) by simp
  have split: "set (tracking st) = insert ?t (set (butlast (tracking st)))"
    using ne by (metis append_butlast_last_id list.simps(15) rotate1.simps(2) set_rotate1)
  have "disgard ?st1 =
          Some (?st1\<lparr>tracking := [],
                  links := filter (\<lambda>p. fst p \<notin> trackingGroup ` set (tracking ?st1)) (links ?st1)\<rparr>)"
    using len by (rule Suc.hyps(1))
  moreover have "filter (\<lambda>p. fst p \<notin> trackingGroup ` set (butlast (tracking st))) ?L
                 = filter (\<lambda>p. fst p \<notin> trackingGroup ` set (tracking st)) (links st)"
    by (subst split) (auto intro: filter_cong)
  ultimately show ?case
    using ne by (subst disgard.simps) (simp add: disgard_group_eq)
qed

lemma tg_size_filter_out:
  "g \<in> G \<Longrightarrow> tg_size (filter (\<lambda>p. fst p \<notin> G) L) g = 0"
  by (auto simp: tg_size_def tg_segments_def filter_empty_conv)

lemma revert_segment_tracking:
  "tracking (state_of (revert_segment E t sg st)) = tracking st"
  by (simp add: revert_segment_def Let_def split: MergeTreeDeltaType.splits option.splits)

lemma revert_segment_size:
  assumes "tg_size (links st) (trackingGroup t) > 0"
    and "revert_segment E t (hd (tg_segments (links st) (trackingGroup t))) st = Normal st'"
  shows "tg_size (links st') (trackingGroup t) < tg_size (links st) (trackingGroup t)"
proof -
  let ?g = "trackingGroup t"
  let ?sg = "hd (tg_segments (links st) ?g)"
  have dec: "tg_size (tc_unlink ?sg ?g (links st)) ?g < tg_size (links st) ?g"
    unfolding tc_unlink_def using assms(1)
    by (intro tg_size_removeAll_less hd_tg_segments_linked)
  have "tg_size (links st') ?g = tg_size (tc_unlink ?sg ?g (links st)) ?g"
    using assms(2)
    by (auto simp: revert_segment_def Let_def tg_size_def tg_segments_migrate
             split: MergeTreeDeltaType.splits option.splits if_splits)
  with dec show ?thesis by simp
qed

lemma revert_group_total:
  "\<exists>r. revert_group E t st = Some r \<and> tracking (state_of r) = tracking st"
proof (induction "tg_size (links st) (trackingGroup t)" arbitrary: st rule: less_induct)
  case less
  show ?case
  proof (cases "tg_size (links st) (trackingGroup t) > 0")
    case False
    then show ?thesis by (subst revert_group.simps) simp
  next
    case True
    let ?sg = "hd (tg_segments (links st) (trackingGroup t))"
    show ?thesis
    proof (cases "revert_segment E t ?sg st")
      case (Normal st')
      then have "tg_size (links st') (trackingGroup t) < tg_size (links st) (trackingGroup t)"
        using True by (intro revert_segment_size)
      then obtain r where r: "revert_group E t st' = Some r" "tracking (state_of r) = tracking st'"
        using less by blast
      moreover have "tracking st' = tracking st"
        using revert_segment_tracking [of E t ?sg st] Normal by simp
      ultimately show ?thesis
        using True Normal by (subst revert_group.simps) simp
    next
      case (Throw err st')
      moreover have "tracking st' = tracking st"
        using revert_segment_tracking [of E t ?sg st] Throw by simp
      ultimately show ?thesis
        using True by (subst revert_group.simps) simp
    qed
  qed
qed

lemma revert_total:
  "\<exists>r. revert E st = Some r \<and> (\<forall>st'. r = Normal st' \<longrightarrow> tracking st' = [])"
proof (induction "length (tracking st)" arbitrary: st)
  case 0
  then show ?case by (subst revert.simps) simp
next
  case (Suc n)
  let ?st1 = "st\<lparr>tracking := butlast (tracking st)\<rparr>"
  obtain r where r: "revert_group E (last (tracking st)) ?st1 = Some r"
      "tracking (state_of r) = tracking ?st1"
    using revert_group_total by blast
  show ?case
  proof (cases r)
    case (Normal st2)
    then have "n = length (tracking st2)" using r(2) Suc.hyps(2) by simp
    then obtain r' where "revert E st2 = Some r'" "\<forall>st'. r' = Normal st' \<longrightarrow> tracking st' = []"
      using Suc.hyps(1) by blast
    then show ?thesis
      using Suc.hyps(2) r(1) Normal by (subst revert.simps) simp
  next
    case (Throw err st2)
    then show ?thesis
      using Suc.hyps(2) r(1) by (subst revert.simps) simp
  qed
qed

section \<open>Recording: coalescing\<close>

lemma matchProperties_iff:
  "matchProperties x y \<longleftrightarrow> map_option map_of x = map_option map_of y"
proof (cases x; cases y)
  fix a b assume xy: "x = Some a" "y = Some b"
  have "matchProperties (Some a) (Some b) \<longleftrightarrow> map_of a = map_of b"
  proof
    assume m: "matchProperties (Some a) (Some b)"
    show "map_of a = map_of b"
    proof
      fix k
      show "map_of a k = map_of b k"
      proof (cases "k \<in> fst ` set a \<or> k \<in> fst ` set b")
        case True
        then show ?thesis using m by (auto simp: list_all_iff)
      next
        case False
        then have "map_of a k = None" "map_of b k = None"
          by (simp_all add: map_of_eq_None_iff)
        then show ?thesis by simp
      qed
    qed
  next
    assume "map_of a = map_of b"
    then show "matchProperties (Some a) (Some b)" by (simp add: list_all_iff)
  qed
  then show ?thesis using xy by simp
qed simp_all

lemma matchProperties_trans:
  "matchProperties x y \<Longrightarrow> matchProperties y z \<Longrightarrow> matchProperties x z"
  by (simp add: matchProperties_iff)

lemma fold_link_mono: "p \<in> set L \<Longrightarrow> p \<in> set (fold (\<lambda>x. tg_link g (segment x)) xs L)"
  by (induction xs arbitrary: L) (auto simp: tg_link_def)

lemma fold_link_member:
  "x \<in> set xs \<Longrightarrow> (g, segment x) \<in> set (fold (\<lambda>x. tg_link g (segment x)) xs L)"
proof (induction xs arbitrary: L)
  case Nil
  then show ?case by simp
next
  case (Cons a xs)
  show ?case
  proof (cases "x = a")
    case True
    have "(g, segment a) \<in> set (tg_link g (segment a) L)" by (simp add: tg_link_def)
    then show ?thesis using True by (simp add: fold_link_mono)
  next
    case False
    then show ?thesis using Cons by simp
  qed
qed

lemma fold_add_range_matching:
  assumes "operation c = k"
    and "\<forall>x \<in> set xs. matchProperties (propertyDelta c) (propertyDeltas x)"
  shows "fold (add_range k) xs (Some c, st)
         = (Some c, st\<lparr>links := fold (\<lambda>x. tg_link (trackingGroup c) (segment x)) xs (links st)\<rparr>)"
  using assms
proof (induction xs arbitrary: st)
  case Nil
  then show ?case by simp
next
  case (Cons a xs)
  then show ?case by (simp add: add_range_def)
qed

lemma add_range_tail:
  "add_range k r (tail_entry st, st) = (cur', st') \<Longrightarrow> cur' = tail_entry st'"
  by (auto simp: add_range_def tail_entry_def Let_def split: option.splits if_splits)

lemma fold_add_range_tail:
  "fold (add_range k) xs (tail_entry st, st) = (cur', st') \<Longrightarrow> cur' = tail_entry st'"
proof (induction xs arbitrary: st cur' st')
  case Nil
  then show ?case by auto
next
  case (Cons a xs)
  obtain c1 s1 where s: "add_range k a (tail_entry st, st) = (c1, s1)" by force
  then have "c1 = tail_entry s1" by (rule add_range_tail)
  then show ?case using Cons s by simp
qed

lemma add_eq_fold:
  "add event st = snd (fold (add_range (deltaOperation event)) (ranges event) (tail_entry st, st))"
  by (simp add: add_def tail_entry_def)

lemma add_append:
  "add (event\<lparr>ranges := xs @ ys\<rparr>) st
     = snd (fold (add_range (deltaOperation event)) ys
              (tail_entry (add (event\<lparr>ranges := xs\<rparr>) st), add (event\<lparr>ranges := xs\<rparr>) st))"
proof -
  obtain c1 s1 where f: "fold (add_range (deltaOperation event)) xs (tail_entry st, st) = (c1, s1)"
    by force
  then have c: "c1 = tail_entry s1" by (rule fold_add_range_tail)
  have "add (event\<lparr>ranges := xs\<rparr>) st = s1" using f by (simp add: add_eq_fold)
  then show ?thesis using f c by (simp add: add_eq_fold)
qed

lemma set_tg_segments_link:
  "set (tg_segments (tg_link g s L) g') = set (tg_segments L g') \<union> (if g' = g then {s} else {})"
  by (force simp: tg_segments_def tg_link_def)

lemma set_tg_segments_fold_link:
  "set (tg_segments (fold (\<lambda>x. tg_link g (segment x)) xs L) g)
     = set (tg_segments L g) \<union> segment ` set xs"
  by (induction xs arbitrary: L) (auto simp: set_tg_segments_link)

lemma add_range_allocated:
  assumes "allocated st" and "add_range k r (tail_entry st, st) = (cur', st')"
  shows "allocated st'"
proof -
  have t: "tracking st \<noteq> [] \<Longrightarrow> trackingGroup (last (tracking st)) < fresh_tg st"
    using assms(1) by (simp add: allocated_def list_all_iff)
  show ?thesis
    using assms t
    by (fastforce simp: add_range_def tail_entry_def Let_def allocated_def list_all_iff
             tg_link_def less_Suc_eq split: option.splits if_splits)
qed

lemma fold_add_range_allocated:
  "allocated st \<Longrightarrow> fold (add_range k) xs (tail_entry st, st) = (cur', st') \<Longrightarrow> allocated st'"
proof (induction xs arbitrary: st cur' st')
  case Nil
  then show ?case by simp
next
  case (Cons a xs)
  obtain c1 s1 where s: "add_range k a (tail_entry st, st) = (c1, s1)" by force
  then have "c1 = tail_entry s1" "allocated s1"
    using Cons.prems(1) by (auto dest: add_range_tail add_range_allocated)
  then show ?case using Cons s by simp
qed

lemma add_allocated: "allocated st \<Longrightarrow> allocated (add event st)"
proof -
  assume a: "allocated st"
  obtain c1 s1 where f: "fold (add_range (deltaOperation event)) (ranges event) (tail_entry st, st) = (c1, s1)"
    by force
  then have "allocated s1" using a by (rule fold_add_range_allocated [rotated])
  then show ?thesis using f by (simp add: add_eq_fold)
qed

lemma allocated_fresh_unlinked:
  "allocated st \<Longrightarrow> tg_segments (links st) (fresh_tg st) = []"
  by (auto simp: allocated_def list_all_iff tg_segments_def filter_empty_conv)

lemma add_no_ranges: "add (event\<lparr>ranges := []\<rparr>) st = st"
  by (simp add: add_def)

lemma add_snoc:
  "add (event\<lparr>ranges := xs @ [r]\<rparr>) st
     = (let st1 = add (event\<lparr>ranges := xs\<rparr>) st
        in if tracking st1 \<noteq> [] \<and> operation (last (tracking st1)) = deltaOperation event \<and>
              matchProperties (propertyDelta (last (tracking st1))) (propertyDeltas r)
           then st1\<lparr>links := tg_link (trackingGroup (last (tracking st1))) (segment r) (links st1)\<rparr>
           else st1\<lparr>links := tg_link (fresh_tg st1) (segment r) (links st1),
                    fresh_tg := Suc (fresh_tg st1),
                    tracking := tracking st1 @
                      [\<lparr>trackingGroup = fresh_tg st1, propertyDelta = propertyDeltas r,
                        operation = deltaOperation event\<rparr>]\<rparr>)"
  by (simp add: add_append [where event = event and xs = xs and ys = "[r]" and st = st] add_range_def tail_entry_def Let_def)

lemma add_run:
  assumes "allocated st"
    and "\<forall>x \<in> set rs. matchProperties (propertyDeltas r) (propertyDeltas x)"
  shows "let st1 = add (event\<lparr>ranges := pre\<rparr>) st;
             st2 = add (event\<lparr>ranges := pre @ r # rs\<rparr>) st
         in if tracking st1 \<noteq> [] \<and> operation (last (tracking st1)) = deltaOperation event \<and>
               matchProperties (propertyDelta (last (tracking st1))) (propertyDeltas r)
            then tracking st2 = tracking st1 \<and> fresh_tg st2 = fresh_tg st1 \<and>
                 segment ` set (r # rs)
                   \<subseteq> set (tg_segments (links st2) (trackingGroup (last (tracking st1))))
            else tracking st2
                   = tracking st1 @ [\<lparr>trackingGroup = fresh_tg st1, propertyDelta = propertyDeltas r,
                                      operation = deltaOperation event\<rparr>] \<and>
                 fresh_tg st2 = Suc (fresh_tg st1) \<and>
                 fresh_tg st1 \<notin> trackingGroup ` set (tracking st1) \<and>
                 set (tg_segments (links st2) (fresh_tg st1)) = segment ` set (r # rs)"
proof -
  define k where "k = deltaOperation event"
  define st1 where "st1 = add (event\<lparr>ranges := pre\<rparr>) st"
  define st2 where "st2 = add (event\<lparr>ranges := pre @ r # rs\<rparr>) st"
  have al: "allocated st1" unfolding st1_def using assms(1) by (rule add_allocated)
  have st2: "st2 = snd (fold (add_range k) (r # rs) (tail_entry st1, st1))"
    unfolding st2_def st1_def k_def
    by (rule add_append [where event = event and xs = pre and ys = "r # rs" and st = st])
  have goal: "if tracking st1 \<noteq> [] \<and> operation (last (tracking st1)) = k \<and>
               matchProperties (propertyDelta (last (tracking st1))) (propertyDeltas r)
            then tracking st2 = tracking st1 \<and> fresh_tg st2 = fresh_tg st1 \<and>
                 segment ` set (r # rs)
                   \<subseteq> set (tg_segments (links st2) (trackingGroup (last (tracking st1))))
            else tracking st2
                   = tracking st1 @ [\<lparr>trackingGroup = fresh_tg st1, propertyDelta = propertyDeltas r,
                                      operation = k\<rparr>] \<and>
                 fresh_tg st2 = Suc (fresh_tg st1) \<and>
                 fresh_tg st1 \<notin> trackingGroup ` set (tracking st1) \<and>
                 set (tg_segments (links st2) (fresh_tg st1)) = segment ` set (r # rs)"
  proof (cases "tracking st1 \<noteq> [] \<and> operation (last (tracking st1)) = k \<and>
            matchProperties (propertyDelta (last (tracking st1))) (propertyDeltas r)")
    case True
    let ?c = "last (tracking st1)"
    have all: "\<forall>x \<in> set (r # rs). matchProperties (propertyDelta ?c) (propertyDeltas x)"
      using True assms(2) by (auto intro: matchProperties_trans)
    have te: "tail_entry st1 = Some ?c" using True by (simp add: tail_entry_def)
    have "st2 = st1\<lparr>links := fold (\<lambda>x. tg_link (trackingGroup ?c) (segment x)) (r # rs) (links st1)\<rparr>"
      using True fold_add_range_matching [OF _ all, of k st1] by (simp add: st2 te)
    then show ?thesis
      using True set_tg_segments_fold_link [of "trackingGroup ?c" "r # rs" "links st1"] by auto
  next
    case False
    let ?g = "fresh_tg st1"
    let ?c = "\<lparr>trackingGroup = ?g, propertyDelta = propertyDeltas r, operation = k\<rparr>"
    let ?s = "st1\<lparr>links := tg_link ?g (segment r) (links st1), fresh_tg := Suc ?g,
                  tracking := tracking st1 @ [?c]\<rparr>"
    have first: "add_range k r (tail_entry st1, st1) = (Some ?c, ?s)"
      using False by (auto simp: add_range_def tail_entry_def Let_def)
    have rest: "fold (add_range k) rs (Some ?c, ?s)
                = (Some ?c, ?s\<lparr>links := fold (\<lambda>x. tg_link ?g (segment x)) rs (links ?s)\<rparr>)"
      using fold_add_range_matching [of ?c k rs ?s] assms(2) by simp
    have eq: "st2 = ?s\<lparr>links := fold (\<lambda>x. tg_link ?g (segment x)) rs (links ?s)\<rparr>"
      using first rest by (simp add: st2)
    have none: "set (tg_segments (links st1) ?g) = {}"
      using allocated_fresh_unlinked [OF al] by simp
    have segs: "set (tg_segments (links st2) ?g) = segment ` set (r # rs)"
      using none by (simp add: eq set_tg_segments_fold_link set_tg_segments_link)
    have new: "?g \<notin> trackingGroup ` set (tracking st1)"
      using al by (auto simp: allocated_def list_all_iff)
    show ?thesis using False segs new by (simp add: eq)
  qed
  show ?thesis
    using goal unfolding st1_def st2_def k_def by (simp only: Let_def)
qed

text \<open>
  C3: recording consecutive affected ranges that share the operation kind and a
  property-wise equal property delta produces exactly one Tracked Entry whose group links
  all their segments, and a range whose kind or delta differs from the tail entry's starts
  a new tracking group and appends a new entry, which becomes the new tail.  The theorem
  fixes \<open>add\<close> on every event, range by range: without ranges nothing changes, and the
  last range \<open>r\<close> of \<open>xs @ [r]\<close> is linked to the group of the tail entry left by \<open>xs\<close>
  when that entry has the event's kind and a matching delta, and else opens a new entry
  with a new group at the tail.  For a run \<open>r # rs\<close> of matching ranges after any ranges
  \<open>pre\<close> of the same event it follows that the run adds no entry when the tail left by
  \<open>pre\<close> matches, and else exactly one entry, whose group is new and links the segments
  of the run and no other.
\<close>

theorem add_coalesces:
  assumes "allocated st"
    and "\<forall>x \<in> set rs. matchProperties (propertyDeltas r) (propertyDeltas x)"
  shows "add (event\<lparr>ranges := []\<rparr>) st = st \<and>
         add (event\<lparr>ranges := xs @ [r]\<rparr>) st
           = (let st1 = add (event\<lparr>ranges := xs\<rparr>) st
              in if tracking st1 \<noteq> [] \<and>
                    operation (last (tracking st1)) = deltaOperation event \<and>
                    matchProperties (propertyDelta (last (tracking st1))) (propertyDeltas r)
                 then st1\<lparr>links :=
                          tg_link (trackingGroup (last (tracking st1))) (segment r) (links st1)\<rparr>
                 else st1\<lparr>links := tg_link (fresh_tg st1) (segment r) (links st1),
                          fresh_tg := Suc (fresh_tg st1),
                          tracking := tracking st1 @
                            [\<lparr>trackingGroup = fresh_tg st1, propertyDelta = propertyDeltas r,
                              operation = deltaOperation event\<rparr>]\<rparr>) \<and>
         (let st1 = add (event\<lparr>ranges := pre\<rparr>) st;
              st2 = add (event\<lparr>ranges := pre @ r # rs\<rparr>) st
          in if tracking st1 \<noteq> [] \<and> operation (last (tracking st1)) = deltaOperation event \<and>
                matchProperties (propertyDelta (last (tracking st1))) (propertyDeltas r)
             then tracking st2 = tracking st1 \<and> fresh_tg st2 = fresh_tg st1 \<and>
                  segment ` set (r # rs)
                    \<subseteq> set (tg_segments (links st2) (trackingGroup (last (tracking st1))))
             else tracking st2
                    = tracking st1 @
                        [\<lparr>trackingGroup = fresh_tg st1, propertyDelta = propertyDeltas r,
                          operation = deltaOperation event\<rparr>] \<and>
                  fresh_tg st2 = Suc (fresh_tg st1) \<and>
                  fresh_tg st1 \<notin> trackingGroup ` set (tracking st1) \<and>
                  set (tg_segments (links st2) (fresh_tg st1)) = segment ` set (r # rs))"
  using add_no_ranges [where event = event and st = st]
    add_snoc [where event = event and xs = xs and r = r and st = st]
    add_run [OF assms, where event = event and pre = pre]
  by (intro conjI)

theorem add_coalesces_witness:
  "allocated \<lparr>tracking = [], links = [], fresh_tg = 0\<rparr> \<and>
   matchProperties (Some [(''a'', ''1''), (''b'', ''2'')]) (Some [(''b'', ''2''), (''a'', ''1'')]) \<and>
   add \<lparr>isLocal = True, deltaOperation = ANNOTATE,
        ranges = [\<lparr>segment = 1, propertyDeltas = Some [(''a'', ''1''), (''b'', ''2'')]\<rparr>,
                  \<lparr>segment = 2, propertyDeltas = Some [(''b'', ''2''), (''a'', ''1'')]\<rparr>]\<rparr>
     \<lparr>tracking = [], links = [], fresh_tg = 0\<rparr>
   = \<lparr>tracking = [\<lparr>trackingGroup = 0, propertyDelta = Some [(''a'', ''1''), (''b'', ''2'')],
                    operation = ANNOTATE\<rparr>],
      links = [(0, 1), (0, 2)], fresh_tg = 1\<rparr> \<and>
   add \<lparr>isLocal = True, deltaOperation = ANNOTATE,
        ranges = [\<lparr>segment = 1, propertyDeltas = Some [(''a'', ''1''), (''b'', ''2'')]\<rparr>,
                  \<lparr>segment = 2, propertyDeltas = Some [(''b'', ''2''), (''a'', ''1'')]\<rparr>,
                  \<lparr>segment = 3, propertyDeltas = Some [(''a'', ''9'')]\<rparr>,
                  \<lparr>segment = 4, propertyDeltas = Some [(''a'', ''1''), (''b'', ''2'')]\<rparr>]\<rparr>
     \<lparr>tracking = [], links = [], fresh_tg = 0\<rparr>
   = \<lparr>tracking = [\<lparr>trackingGroup = 0, propertyDelta = Some [(''a'', ''1''), (''b'', ''2'')],
                    operation = ANNOTATE\<rparr>,
                   \<lparr>trackingGroup = 1, propertyDelta = Some [(''a'', ''9'')],
                    operation = ANNOTATE\<rparr>,
                   \<lparr>trackingGroup = 2, propertyDelta = Some [(''a'', ''1''), (''b'', ''2'')],
                    operation = ANNOTATE\<rparr>],
      links = [(0, 1), (0, 2), (1, 3), (2, 4)], fresh_tg = 3\<rparr>"
proof -
  have h1: "allocated \<lparr>tracking = [], links = [], fresh_tg = 0\<rparr>"
    by (simp add: allocated_def)
  have h2: "\<forall>x \<in> set [\<lparr>segment = 2, propertyDeltas = Some [(''b'', ''2''), (''a'', ''1'')]\<rparr>].
              matchProperties
                (propertyDeltas \<lparr>segment = 1, propertyDeltas = Some [(''a'', ''1''), (''b'', ''2'')]\<rparr>)
                (propertyDeltas x)"
    by simp
  show ?thesis
    using add_coalesces
      [OF h1 h2,
       where event = "\<lparr>isLocal = True, deltaOperation = ANNOTATE, ranges = []\<rparr>"
         and xs = "[]" and pre = "[]"]
    by (simp add: add_def add_range_def tg_link_def Let_def allocated_def)
qed

section \<open>Discarding a Revertable\<close>

text \<open>
  C6: \<open>disgard\<close> issues no content-mutating operation on the sequence; its only effect
  is to unlink segments from the tracked groups.  It returns, the sequence is the one it
  started with, the entry list is empty, no group was constructed, the link table has lost
  exactly the links of the groups of the Revertable's entries, and each of these groups
  has size 0.
\<close>

theorem disgard_only_unlinks:
  fixes st :: "'e revertable"
  shows "\<exists>st'. disgard st = Some st' \<and>
           sequence st' = sequence st \<and>
           tracking st' = [] \<and>
           fresh_tg st' = fresh_tg st \<and>
           links st' = filter (\<lambda>p. fst p \<notin> trackingGroup ` set (tracking st)) (links st) \<and>
           (\<forall>t \<in> set (tracking st). tg_size (links st') (trackingGroup t) = 0)"
  by (simp add: disgard_eq tg_size_filter_out)

theorem disgard_only_unlinks_witness:
  "\<exists>st'. disgard \<lparr>tracking = [\<lparr>trackingGroup = 0, propertyDelta = None, operation = INSERT\<rparr>,
                              \<lparr>trackingGroup = 1, propertyDelta = None, operation = REMOVE\<rparr>],
                  links = [(0, 4), (1, 5), (0, 6), (9, 4)], fresh_tg = 2,
                  sequence = [RemoveRange 0 1]\<rparr> = Some st' \<and>
         sequence st' = [RemoveRange 0 1] \<and> tracking st' = [] \<and> links st' = [(9, 4)] \<and>
         tg_size (links st') 0 = 0 \<and> tg_size (links st') 1 = 0"
  using disgard_only_unlinks
    [of "\<lparr>tracking = [\<lparr>trackingGroup = 0, propertyDelta = None, operation = INSERT\<rparr>,
                       \<lparr>trackingGroup = 1, propertyDelta = None, operation = REMOVE\<rparr>],
           links = [(0, 4), (1, 5), (0, 6), (9, 4)], fresh_tg = 2,
           sequence = [RemoveRange 0 1]\<rparr>"]
  by auto

section \<open>A Revertable is one-shot\<close>

text \<open>
  C7: when \<open>revert\<close> has run to completion the entry list is empty, and a second
  \<open>revert\<close> or a \<open>disgard\<close> on the same Revertable returns with the state unchanged:
  no further operation on the sequence and no further unlink.
\<close>

theorem revert_one_shot:
  assumes "revert E st = Some (Normal st')"
  shows "tracking st' = [] \<and> revert E st' = Some (Normal st') \<and> disgard st' = Some st'"
proof -
  from revert_total [of E st] assms have e: "tracking st' = []" by auto
  have "revert E st' = Some (Normal st')" using e by (subst revert.simps) simp
  moreover have "disgard st' = Some st'" using e by (subst disgard.simps) simp
  ultimately show ?thesis using e by simp
qed

theorem revert_one_shot_witness:
  "revert (recording_engine [5])
     \<lparr>tracking = [\<lparr>trackingGroup = 0, propertyDelta = None, operation = INSERT\<rparr>,
                   \<lparr>trackingGroup = 1, propertyDelta = None, operation = INSERT\<rparr>],
      links = [(0, 1), (1, 5), (1, 2)], fresh_tg = 2, sequence = []\<rparr>
   = Some (Normal \<lparr>tracking = [], links = [], fresh_tg = 2,
                   sequence = [RemoveRange 20 30, RemoveRange 10 20]\<rparr>) \<and>
   tracking \<lparr>tracking = [], links = [], fresh_tg = 2,
             sequence = [RemoveRange 20 30, RemoveRange 10 20]\<rparr> = [] \<and>
   revert (recording_engine [5])
     \<lparr>tracking = [], links = [], fresh_tg = 2,
      sequence = [RemoveRange 20 30, RemoveRange 10 20]\<rparr>
   = Some (Normal \<lparr>tracking = [], links = [], fresh_tg = 2,
                   sequence = [RemoveRange 20 30, RemoveRange 10 20]\<rparr>) \<and>
   disgard \<lparr>tracking = [], links = [], fresh_tg = 2,
            sequence = [RemoveRange 20 30, RemoveRange 10 20]\<rparr>
   = Some \<lparr>tracking = [], links = [], fresh_tg = 2,
           sequence = [RemoveRange 20 30, RemoveRange 10 20]\<rparr>"
proof -
  have a: "js_add 10 10 = 20" "js_add 20 10 = 30" by code_simp+
  have h: "revert (recording_engine [5])
     \<lparr>tracking = [\<lparr>trackingGroup = 0, propertyDelta = None, operation = INSERT\<rparr>,
                   \<lparr>trackingGroup = 1, propertyDelta = None, operation = INSERT\<rparr>],
      links = [(0, 1), (1, 5), (1, 2)], fresh_tg = 2, sequence = []\<rparr>
   = Some (Normal \<lparr>tracking = [], links = [], fresh_tg = 2,
                   sequence = [RemoveRange 20 30, RemoveRange 10 20]\<rparr>)"
    by (simp add: revert.simps revert_group.simps revert_segment_def recording_engine_def
          tg_size_def tg_segments_def tc_unlink_def a)
  show ?thesis
    using revert_one_shot [OF h] h by simp
qed

section \<open>Termination\<close>


section \<open>Reverting a removal\<close>







section \<open>Reverting an annotation\<close>

text \<open>
  C1 says that reverting an entry of kind annotate re-applies the recorded property delta
  over the extent of a segment that has not been removed, and never raises the error for
  unsupported operation kinds.  The code does re-apply the delta, but the annotate case of
  the \<open>switch\<close> has no \<open>break\<close>: control runs on into the \<open>default\<close> case.  So
  \<open>revert\<close> on a Revertable whose last entry is of kind annotate and has a linked segment
  always throws that error, after the first segment of the group.
\<close>

theorem revert_annotate_throws:
  assumes "tracking st \<noteq> []"
    and "operation (last (tracking st)) = ANNOTATE"
    and "tg_size (links st) (trackingGroup (last (tracking st))) > 0"
  shows "\<exists>st'. revert E st = Some (Throw OperationTypeNotRevertable st') \<and>
           (removedSeq E (sequence st)
              (hd (tg_segments (links st) (trackingGroup (last (tracking st))))) = None \<longrightarrow>
            sequence st' =
              annotateRange E
                (getPosition E (sequence st)
                   (hd (tg_segments (links st) (trackingGroup (last (tracking st))))))
                (js_add
                   (getPosition E (sequence st)
                      (hd (tg_segments (links st) (trackingGroup (last (tracking st))))))
                   (cachedLength E (sequence st)
                      (hd (tg_segments (links st) (trackingGroup (last (tracking st)))))))
                (propertyDelta (last (tracking st))) (sequence st))"
proof -
  let ?t = "last (tracking st)"
  let ?st1 = "st\<lparr>tracking := butlast (tracking st)\<rparr>"
  let ?sg = "hd (tg_segments (links st) (trackingGroup ?t))"
  let ?st2 = "?st1\<lparr>links := tc_unlink ?sg (trackingGroup ?t) (links ?st1)\<rparr>"
  define st' where "st' =
    (if removedSeq E (sequence st) ?sg = None
     then ?st2\<lparr>sequence :=
            annotateRange E (getPosition E (sequence st) ?sg)
              (js_add (getPosition E (sequence st) ?sg) (cachedLength E (sequence st) ?sg))
              (propertyDelta ?t) (sequence st)\<rparr>
     else ?st2)"
  have s: "revert_segment E ?t ?sg ?st1 = Throw OperationTypeNotRevertable st'"
    using assms(2) by (simp add: revert_segment_def Let_def st'_def)
  have a: "removedSeq E (sequence st) ?sg = None \<longrightarrow>
            sequence st' =
              annotateRange E (getPosition E (sequence st) ?sg)
                (js_add (getPosition E (sequence st) ?sg) (cachedLength E (sequence st) ?sg))
                (propertyDelta ?t) (sequence st)"
    by (simp add: st'_def)
  have "revert_group E ?t ?st1 = Some (Throw OperationTypeNotRevertable st')"
    using assms(3) s by (subst revert_group.simps) simp
  then have "revert E st = Some (Throw OperationTypeNotRevertable st')"
    using assms(1) by (subst revert.simps) simp
  then show ?thesis using a by (intro exI [of _ st'] conjI)
qed

theorem revert_annotate_throws_witness:
  "revert (recording_engine [])
     \<lparr>tracking = [\<lparr>trackingGroup = 0, propertyDelta = Some [(''bold'', ''false'')],
                   operation = ANNOTATE\<rparr>],
      links = [(0, 3), (0, 4)], fresh_tg = 1, sequence = []\<rparr>
   = Some (Throw OperationTypeNotRevertable
       \<lparr>tracking = [], links = [(0, 4)], fresh_tg = 1,
        sequence = [AnnotateRange 30 40 (Some [(''bold'', ''false'')])]\<rparr>)"
proof -
  have a: "js_add 30 10 = 40" by code_simp
  show ?thesis
    using revert_annotate_throws
      [of "\<lparr>tracking = [\<lparr>trackingGroup = 0, propertyDelta = Some [(''bold'', ''false'')],
                          operation = ANNOTATE\<rparr>],
             links = [(0, 3), (0, 4)], fresh_tg = 1, sequence = []\<rparr>" "recording_engine []"]
    by (simp add: revert.simps revert_group.simps revert_segment_def recording_engine_def
          tg_size_def tg_segments_def tc_unlink_def a)
qed

section \<open>The rounding\<close>

text \<open>
  \<open>ilog2\<close> brackets its argument between two neighbouring powers of two, and \<open>fl x\<close>
  is a multiple of the unit in the last of 53 significant bits that lies within half a
  unit of \<open>x\<close>.
\<close>

lemma round_half_even_near: "\<bar>of_int (round_half_even y) - y\<bar> \<le> 1 / 2"
proof -
  have "of_int \<lfloor>y\<rfloor> \<le> y" "y < of_int \<lfloor>y\<rfloor> + 1" by linarith+
  then show ?thesis
    by (auto simp: round_half_even_def Let_def abs_le_iff)
qed

lemma ilog2_bounds:
  assumes "0 < x"
  shows "pow2 (ilog2 x) \<le> x \<and> x < pow2 (ilog2 x + 1)"
proof (cases "1 \<le> x")
  case True
  define m where "m = \<lfloor>x\<rfloor>"
  have m: "0 < m" using True by (simp add: m_def)
  have mx: "of_int m \<le> x" "x < of_int m + 1" unfolding m_def by linarith+
  have b: "2 ^ nat (bitlen m - 1) \<le> m" "m < 2 ^ nat (bitlen m)"
    using bitlen_bounds [OF m] by simp_all
  have b1: "1 \<le> bitlen m" using m bitlen_nonneg [of m] bitlen_eq_zero_iff [of m] by linarith
  have il: "ilog2 x = bitlen m - 1" using True by (simp add: ilog2_def m_def)
  have "(of_int (2 ^ nat (bitlen m - 1)) :: rat) \<le> of_int m" using b(1) by (simp only: of_int_le_iff)
  then have r1: "(2::rat) ^ nat (bitlen m - 1) \<le> of_int m" by simp
  have p1: "pow2 (ilog2 x) = 2 ^ nat (bitlen m - 1)" using b1 by (simp add: il pow2_def)
  have lo: "pow2 (ilog2 x) \<le> x" using r1 mx(1) unfolding p1 by linarith
  have "m + 1 \<le> 2 ^ nat (bitlen m)" using b(2) by simp
  then have "(of_int (m + 1) :: rat) \<le> of_int (2 ^ nat (bitlen m))" by (simp only: of_int_le_iff)
  then have r2: "of_int m + 1 \<le> (2::rat) ^ nat (bitlen m)" by simp
  have p2: "pow2 (ilog2 x + 1) = 2 ^ nat (bitlen m)" using b1 by (simp add: il pow2_def)
  have hi: "x < pow2 (ilog2 x + 1)" using r2 mx(2) unfolding p2 by linarith
  show ?thesis using lo hi by simp
next
  case False
  define c where "c = \<lceil>1 / x\<rceil>"
  define k where "k = nat (bitlen (c - 1))"
  have y: "1 < 1 / x" using False assms by simp
  have cy: "1 / x \<le> of_int c" "of_int c - 1 < 1 / x" unfolding c_def by linarith+
  have c: "0 < c - 1" using y cy(1) by linarith
  have b: "2 ^ nat (bitlen (c - 1) - 1) \<le> c - 1" "c - 1 < 2 ^ nat (bitlen (c - 1))"
    using bitlen_bounds [OF c] by simp_all
  have b1: "1 \<le> bitlen (c - 1)"
    using c bitlen_nonneg [of "c - 1"] bitlen_eq_zero_iff [of "c - 1"] by linarith
  have il: "ilog2 x = - int k" using False b1 by (simp add: ilog2_def c_def k_def)
  have k1: "1 \<le> k" using b1 by (simp add: k_def)
  have "c \<le> 2 ^ k" using b(2) by (simp add: k_def)
  then have "(of_int c :: rat) \<le> of_int (2 ^ k)" by (simp only: of_int_le_iff)
  then have "(of_int c :: rat) \<le> 2 ^ k" by simp
  then have "1 / x \<le> 2 ^ k" using cy(1) by linarith
  then have "1 \<le> x * 2 ^ k" using assms by (simp add: field_simps)
  then have lo: "pow2 (ilog2 x) \<le> x" using k1 by (simp add: il pow2_def field_simps)
  have "nat (bitlen (c - 1) - 1) = k - 1" by (simp add: k_def nat_diff_distrib)
  then have "2 ^ (k - 1) \<le> c - 1" using b(1) by simp
  then have "(of_int (2 ^ (k - 1)) :: rat) \<le> of_int (c - 1)" by (simp only: of_int_le_iff)
  then have "(2::rat) ^ (k - 1) \<le> of_int c - 1" by simp
  then have "2 ^ (k - 1) < 1 / x" using cy(2) by linarith
  then have h: "x * 2 ^ (k - 1) < 1" using assms by (simp add: field_simps)
  have hi: "x < pow2 (ilog2 x + 1)"
  proof (cases "k = 1")
    case True
    then show ?thesis using h by (simp add: il pow2_def)
  next
    case False
    then have "- int k + 1 < 0" "nat (int k - 1) = k - 1" using k1 by linarith+
    then show ?thesis using h by (simp add: il pow2_def field_simps)
  qed
  show ?thesis using lo hi by simp
qed


lemma pow2_pos: "0 < pow2 e"
  by (simp add: pow2_def)

lemma fl_nearest:
  assumes "x \<noteq> 0"
  shows "\<exists>k. fl x = of_int k * pow2 (ilog2 \<bar>x\<bar> - 52) \<and>
             \<bar>fl x - x\<bar> \<le> pow2 (ilog2 \<bar>x\<bar> - 52) / 2"
proof -
  define u where "u = pow2 (ilog2 \<bar>x\<bar> - 52)"
  define k where "k = round_half_even (x / u)"
  have u: "0 < u" unfolding u_def by (rule pow2_pos)
  have f: "fl x = of_int k * u" using assms by (simp add: fl_def Let_def u_def k_def)
  have "\<bar>of_int k - x / u\<bar> \<le> 1 / 2" unfolding k_def by (rule round_half_even_near)
  then have "\<bar>of_int k - x / u\<bar> * u \<le> (1 / 2) * u" using u by (intro mult_right_mono) simp_all
  moreover have "\<bar>of_int k - x / u\<bar> * u = \<bar>of_int k * u - x\<bar>"
  proof -
    have "\<bar>of_int k - x / u\<bar> * u = \<bar>(of_int k - x / u) * u\<bar>" using u by (simp add: abs_mult)
    also have "(of_int k - x / u) * u = of_int k * u - x" using u by (simp add: field_simps)
    finally show ?thesis .
  qed
  ultimately have "\<bar>fl x - x\<bar> \<le> u / 2" by (simp add: f)
  then show ?thesis using f unfolding u_def by blast
qed

section \<open>Arithmetic on integers below \<open>2 ^ 53\<close> is exact\<close>

lemma round_half_even_of_int: "round_half_even (of_int z) = z"
  by (simp add: round_half_even_def)

lemma bitlen_le_53:
  assumes "0 < m" and "m < 2 ^ 53"
  shows "bitlen m \<le> 53"
proof -
  have "(2::int) ^ nat (bitlen m - 1) \<le> m" using bitlen_bounds [OF assms(1)] by simp
  then have "(2::int) ^ nat (bitlen m - 1) < 2 ^ 53" using assms(2) by linarith
  then have "nat (bitlen m - 1) < 53" by (rule power_less_imp_less_exp [rotated]) simp
  then show ?thesis by linarith
qed

lemma fl_of_int_exact:
  assumes "0 < m" and "m < 2 ^ 53"
  shows "fl (of_int m) = of_int m"
proof -
  let ?j = "nat (53 - bitlen m)"
  have b: "bitlen m \<le> 53" using assms by (rule bitlen_le_53)
  have b1: "1 \<le> bitlen m" using assms(1) bitlen_nonneg [of m] bitlen_eq_zero_iff [of m] by linarith
  have one: "(1::rat) \<le> of_int m" using assms(1) by simp
  have il: "ilog2 \<bar>of_int m\<bar> = bitlen m - 1"
    using one assms(1) by (simp add: ilog2_def)
  have u: "pow2 (ilog2 \<bar>of_int m\<bar> - 52) = 1 / 2 ^ ?j"
  proof (cases "bitlen m = 53")
    case True
    then show ?thesis by (simp add: il pow2_def)
  next
    case False
    then have "bitlen m - 1 - 52 < 0" using b by linarith
    moreover have "nat (- (bitlen m - 1 - 52)) = ?j" by simp
    ultimately show ?thesis by (simp add: il pow2_def)
  qed
  have q: "(of_int m :: rat) / (1 / 2 ^ ?j) = of_int (m * 2 ^ ?j)" by simp
  have nz: "(of_int m :: rat) \<noteq> 0" using assms(1) by simp
  have "fl (of_int m) = of_int (round_half_even (of_int m / (1 / 2 ^ ?j))) * (1 / 2 ^ ?j)"
    using nz by (simp only: fl_def u Let_def if_False)
  also have "\<dots> = of_int (m * 2 ^ ?j) * (1 / 2 ^ ?j)"
    by (simp only: q round_half_even_of_int)
  also have "\<dots> = of_int m" by simp
  finally show ?thesis .
qed

lemma fl_of_nat:
  assumes "n < 2 ^ 53"
  shows "fl (of_nat n) = of_nat n"
proof (cases "n = 0")
  case True
  then show ?thesis by (simp add: fl_def)
next
  case False
  then have "0 < int n" by simp
  moreover have "int n < 2 ^ 53" using assms by (metis of_nat_less_numeral_power_cancel_iff)
  ultimately have "fl (of_int (int n)) = of_int (int n)" by (rule fl_of_int_exact)
  then show ?thesis by simp
qed

lemma js_add_nat:
  "a + b < 2 ^ 53 \<Longrightarrow> js_add (of_nat a) (of_nat b) = of_nat (a + b)"
  using fl_of_nat [of "a + b"] by (simp add: js_add_def)

lemma js_mul_nat:
  "a * b < 2 ^ 53 \<Longrightarrow> js_mul (of_nat a) (of_nat b) = of_nat (a * b)"
  using fl_of_nat [of "a * b"] by (simp add: js_mul_def)

lemma js_sub_nat:
  "b \<le> a \<Longrightarrow> a < 2 ^ 53 \<Longrightarrow> js_sub (of_nat a) (of_nat b) = of_nat (a - b)"
  using fl_of_nat [of "a - b"] by (simp add: js_sub_def of_nat_diff)

lemma maxCols_eq: "maxCols = 2097153"
  using js_add_nat [of 2097152 1] by (simp add: maxCols_def maxCol_def)

lemma bitlen_le:
  assumes "0 < m" and "m < 2 ^ n"
  shows "bitlen m \<le> int n"
proof -
  have "(2::int) ^ nat (bitlen m - 1) \<le> m" using bitlen_bounds [OF assms(1)] by simp
  then have "(2::int) ^ nat (bitlen m - 1) < 2 ^ n" using assms(2) by linarith
  then have "nat (bitlen m - 1) < n" by (rule power_less_imp_less_exp [rotated]) simp
  then show ?thesis by linarith
qed

lemma ilog2_le_31:
  assumes "0 < x" and "x < 2 ^ 32"
  shows "ilog2 x \<le> 31"
proof (cases "1 \<le> x")
  case True
  then have pos: "0 < \<lfloor>x\<rfloor>" by linarith
  have "of_int \<lfloor>x\<rfloor> \<le> x" by linarith
  then have "(of_int \<lfloor>x\<rfloor> :: rat) < of_int (2 ^ 32)" using assms(2) by simp
  then have "\<lfloor>x\<rfloor> < 2 ^ 32" by (simp only: of_int_less_iff)
  then have "bitlen \<lfloor>x\<rfloor> \<le> int 32" using pos by (intro bitlen_le)
  then show ?thesis using True by (simp add: ilog2_def)
next
  case False
  then show ?thesis using bitlen_nonneg [of "\<lceil>1 / x\<rceil> - 1"] by (simp add: ilog2_def)
qed

lemma pow2_small:
  assumes "e \<le> -21"
  shows "\<exists>j. 21 \<le> j \<and> pow2 e = 1 / 2 ^ j"
proof -
  have "pow2 e = 1 / 2 ^ nat (- e)" using assms by (simp add: pow2_def)
  moreover have "21 \<le> nat (- e)" using assms by linarith
  ultimately show ?thesis by blast
qed

lemma floor_js_div_maxCols:
  assumes "p < 2 ^ 53"
  shows "Math_floor (js_div (of_nat p) maxCols) = of_nat (p div 2097153)"
proof (cases "p = 0")
  case True
  then show ?thesis by (simp add: Math_floor_def js_div_def fl_def)
next
  case False
  define x :: rat where "x = of_nat p / 2097153"
  define q where "q = p div 2097153"
  define r where "r = p mod 2097153"
  have p: "p = q * 2097153 + r" and r: "r < 2097153" by (simp_all add: q_def r_def)
  have xpos: "0 < x" using False by (simp add: x_def)
  have xq: "x = of_nat q + of_nat r / 2097153" by (simp add: x_def p add_divide_distrib)
  have "(of_nat p :: rat) < 2 ^ 53" using assms by (metis of_nat_less_numeral_power_cancel_iff)
  then have xlt: "x < 2 ^ 32" by (simp add: x_def)
  have "ilog2 x - 52 \<le> -21" using ilog2_le_31 [OF xpos] xlt by simp
  then obtain j where j: "21 \<le> j" "pow2 (ilog2 x - 52) = 1 / 2 ^ j"
    using pow2_small by blast
  define k where "k = round_half_even (x * 2 ^ j)"
  have flx: "fl x = of_int k / 2 ^ j"
    using xpos by (simp add: fl_def Let_def j(2) k_def)
  have near: "\<bar>of_int k - x * 2 ^ j\<bar> \<le> 1 / 2" unfolding k_def by (rule round_half_even_near)
  have "(2::rat) ^ 21 \<le> 2 ^ j" using j(1) by (intro power_increasing) simp_all
  then have big: "(2097152::rat) \<le> 2 ^ j" by simp
  have pj: "(0::rat) < 2 ^ j" by simp
  have "\<bar>of_int k / 2 ^ j - x\<bar> = \<bar>of_int k - x * 2 ^ j\<bar> / 2 ^ j"
    using pj by (simp add: field_simps abs_divide flip: abs_mult) 
  also have "\<dots> \<le> (1 / 2) / 2 ^ j" using near pj by (intro divide_right_mono) simp_all
  also have "\<dots> \<le> (1 / 2) / 2097152" using big by (intro divide_left_mono) simp_all
  finally have close: "\<bar>fl x - x\<bar> \<le> 1 / 4194304" by (simp add: flx)
  show ?thesis
  proof (cases "r = 0")
    case True
    then have "x * 2 ^ j = of_int (int q * 2 ^ j)" by (simp add: xq)
    then have "k = int q * 2 ^ j" unfolding k_def by (simp only: round_half_even_of_int)
    then have "fl x = of_nat q" by (simp add: flx)
    then show ?thesis by (simp add: Math_floor_def js_div_def maxCols_eq q_def flip: x_def)
  next
    case False
    then have "1 \<le> r" by simp
    then have "(1::rat) \<le> of_nat r" by simp
    then have lo: "of_nat q + 1 / 2097153 \<le> x" by (simp add: xq divide_right_mono)
    have "r \<le> 2097152" using r by simp
    then have "(of_nat r :: rat) \<le> 2097152" by (metis of_nat_le_iff of_nat_numeral)
    then have hi: "x \<le> of_nat q + 2097152 / 2097153" by (simp add: xq divide_right_mono)
    have "of_nat q \<le> fl x" "fl x < of_nat q + 1" using close lo hi by linarith+
    then have "\<lfloor>fl x\<rfloor> = int q" by (simp add: floor_unique)
    then show ?thesis by (simp add: Math_floor_def js_div_def maxCols_eq q_def flip: x_def)
  qed
qed

section \<open>Positions and coordinates\<close>

lemma positionToRowCol_nat:
  assumes "p < 2 ^ 53"
  shows "positionToRowCol (of_nat p) = (of_nat (p div 2097153), of_nat (p mod 2097153))"
proof -
  let ?q = "p div 2097153"
  have le: "?q * 2097153 \<le> p" by simp
  then have lt: "?q * 2097153 < 2 ^ 53" using assms by linarith
  have m: "js_mul (of_nat ?q) maxCols = of_nat (?q * 2097153)"
    using js_mul_nat [OF lt] by (simp add: maxCols_eq)
  have "js_sub (of_nat p) (of_nat (?q * 2097153)) = of_nat (p - ?q * 2097153)"
    using le assms by (rule js_sub_nat)
  moreover have "p - ?q * 2097153 = p mod 2097153"
    by (simp add: minus_div_mult_eq_mod)
  ultimately show ?thesis
    using floor_js_div_maxCols [OF assms] by (simp add: positionToRowCol_def Let_def m)
qed

lemma rowColToPosition_nat:
  assumes "row * 2097153 + col < 2 ^ 53"
  shows "rowColToPosition (of_nat row) (of_nat col) = of_nat (row * 2097153 + col)"
proof -
  have "row * 2097153 < 2 ^ 53" using assms by linarith
  then have "js_mul (of_nat row) maxCols = of_nat (row * 2097153)"
    using js_mul_nat [of row 2097153] by (simp add: maxCols_eq)
  then show ?thesis using js_add_nat [OF assms] by (simp add: rowColToPosition_def)
qed

text \<open>
  For coordinates whose position stays below \<open>2 ^ 53\<close>, which holds for every column of
  every row up to 4294965247, the position is \<open>row * maxCols + col\<close> and
  \<open>positionToRowCol\<close> gives the coordinates back.
\<close>

theorem rowCol_roundtrip_below_2_53:
  assumes "col < 2097152" and "row * 2097153 + col < 2 ^ 53"
  shows "rowColToPosition (of_nat row) (of_nat col) = of_nat (row * 2097153 + col) \<and>
         positionToRowCol (rowColToPosition (of_nat row) (of_nat col)) = (of_nat row, of_nat col)"
proof -
  let ?p = "row * 2097153 + col"
  have c: "col < 2097153" using assms(1) by simp
  have pos: "rowColToPosition (of_nat row) (of_nat col) = of_nat ?p"
    using assms(2) by (rule rowColToPosition_nat)
  have "positionToRowCol (of_nat ?p) = (of_nat (?p div 2097153), of_nat (?p mod 2097153))"
    using assms(2) by (rule positionToRowCol_nat)
  moreover have "?p div 2097153 = row" "?p mod 2097153 = col" using c by simp_all
  ultimately have "positionToRowCol (of_nat ?p) = (of_nat row, of_nat col)" by simp
  then show ?thesis by (simp only: pos simp_thms)
qed

theorem rowCol_roundtrip_below_2_53_witness:
  "(1048575::nat) < 2097152 \<and> (4294965247::nat) * 2097153 + 1048575 < 2 ^ 53 \<and>
   rowColToPosition 4294965247 1048575 = 9007199253690366 \<and>
   positionToRowCol (rowColToPosition 4294965247 1048575) = (4294965247, 1048575)"
proof -
  have h1: "(1048575::nat) < 2097152" by simp
  have h2: "(4294965247::nat) * 2097153 + 1048575 < 2 ^ 53" by simp
  have "rowColToPosition 4294965247 1048575 = 9007199253690366"
    using rowCol_roundtrip_below_2_53 [OF h1 h2, THEN conjunct1] by simp
  moreover
  have "positionToRowCol (rowColToPosition 4294965247 1048575) = (4294965247, 1048575)"
    using rowCol_roundtrip_below_2_53 [OF h1 h2, THEN conjunct2] by simp
  ultimately show ?thesis using h1 h2 by blast
qed

text \<open>
  C2 says that \<open>positionToRowCol (rowColToPosition row col)\<close> is \<open>(row, col)\<close> for every
  row below \<open>maxRow\<close> and every column below \<open>maxCol\<close>.  The positions of the topmost
  rows lie above \<open>2 ^ 53\<close>, where a double holds even integers only: for row 4294967294
  and column 1 the exact position 9007203545513983 is odd, the addition rounds it to
  9007203545513984, and the way back gives column 2.
\<close>

theorem rowCol_roundtrip_fails_in_top_rows:
  "4294967294 < maxRow \<and> 1 < maxCol \<and>
   rowColToPosition 4294967294 1 = 9007203545513984 \<and>
   positionToRowCol (rowColToPosition 4294967294 1) = (4294967294, 2)"
  by code_simp

section \<open>Reading a cell\<close>

text \<open>
  C8: when the containing segment of the position resolves, \<open>getItem\<close> returns the item
  at the in-segment offset for a run segment, returns \<open>undefined\<close> without error for a
  padding segment, and raises the unrecognized-segment error for a segment of any other
  kind.
\<close>

theorem getItem_by_segment_kind:
  assumes "getContainingSegment C e (rowColToPosition row col) = Some (sgm, offset)"
  shows "(\<forall>its tgs. sgm = RunSegment its tgs \<longrightarrow>
            getItem C e row col = Inr (js_index its offset)) \<and>
         (\<forall>n. sgm = PaddingSegment n \<longrightarrow> getItem C e row col = Inr None) \<and>
         (segment_type sgm \<noteq> ''RunSegment'' \<and> segment_type sgm \<noteq> ''PaddingSegment'' \<longrightarrow>
            getItem C e row col = Inl UnrecognizedSegmentType)"
  using assms by (simp add: getItem_def RunSegment_is_def PaddingSegment_is_def)

theorem getItem_by_segment_kind_witness:
  "getItem list_client
     ([RunSegment [''A'', ''B''] [None, None], PaddingSegment 5, ForeignSegment ''Marker''], [])
     0 1 = Inr (Some ''B'') \<and>
   getItem list_client
     ([RunSegment [''A'', ''B''] [None, None], PaddingSegment 5, ForeignSegment ''Marker''], [])
     0 3 = Inr None \<and>
   getItem list_client
     ([RunSegment [''A'', ''B''] [None, None], PaddingSegment 5, ForeignSegment ''Marker''], [])
     0 7 = Inl UnrecognizedSegmentType"
proof -
  let ?e = "([RunSegment [''A'', ''B''] [None, None], PaddingSegment 5,
              ForeignSegment ''Marker''], []) :: MatrixSegment list \<times> matrix_op list"
  have p: "rowColToPosition 0 1 = 1" "rowColToPosition 0 3 = 3" "rowColToPosition 0 7 = 7"
    by code_simp+
  have h1: "getContainingSegment list_client ?e (rowColToPosition 0 1)
              = Some (RunSegment [''A'', ''B''] [None, None], 1)"
    by (simp add: p list_client_def)
  have h2: "getContainingSegment list_client ?e (rowColToPosition 0 3)
              = Some (PaddingSegment 5, 1)"
    by (simp add: p list_client_def)
  have h3: "getContainingSegment list_client ?e (rowColToPosition 0 7)
              = Some (ForeignSegment ''Marker'', 0)"
    by (simp add: p list_client_def)
  have "getItem list_client ?e 0 1 = Inr (Some ''B'')"
    using getItem_by_segment_kind [OF h1] by (simp add: js_index_def)
  moreover have "getItem list_client ?e 0 3 = Inr None"
    using getItem_by_segment_kind [OF h2] by simp
  moreover have "getItem list_client ?e 0 7 = Inl UnrecognizedSegmentType"
    using getItem_by_segment_kind [OF h3] by simp
  ultimately show ?thesis by simp
qed

section \<open>Inserting and removing columns\<close>

lemma spec_rows_append:
  "spec_rows C src dest n (xs @ ys) e
     = (fst (spec_rows C src dest n xs e)
          @ fst (spec_rows C src dest n ys (snd (spec_rows C src dest n xs e))),
        snd (spec_rows C src dest n ys (snd (spec_rows C src dest n xs e))))"
  by (induction xs arbitrary: e) (auto split: prod.splits)

lemma spec_rows_snoc_state:
  "snd (spec_rows C src dest n [0..<Suc r] e)
     = snd (spec_rows C src dest n [r] (snd (spec_rows C src dest n [0..<r] e)))"
  by (simp add: spec_rows_append)

lemma rows_prefix:
  assumes cont: "\<forall>i < K. of_nat i < numRows C (snd (spec_rows C src dest n [0..<i] e))"
    and b1: "K * 2097153 < 2 ^ 53"
    and b2: "\<forall>i < K. i * 2097153 + src + n < 2 ^ 53"
    and b3: "\<forall>i < K. i * 2097153 + dest < 2 ^ 53"
    and "r \<le> K"
  shows "moveAsPadding_rows C (of_nat src) (of_nat (src + n)) (of_nat dest) (of_nat n)
           (of_nat r) (of_nat (r * 2097153)) ops (snd (spec_rows C src dest n [0..<r] e))
         = moveAsPadding_rows C (of_nat src) (of_nat (src + n)) (of_nat dest) (of_nat n)
             (of_nat K) (of_nat (K * 2097153))
             (ops @ fst (spec_rows C src dest n [r..<K] (snd (spec_rows C src dest n [0..<r] e))))
             (snd (spec_rows C src dest n [0..<K] e))"
  using \<open>r \<le> K\<close>
proof (induction "K - r" arbitrary: r ops)
  case 0
  then have "r = K" by simp
  then show ?case by simp
next
  case (Suc k)
  then have lt: "r < K" by linarith
  let ?e = "snd (spec_rows C src dest n [0..<r] e)"
  obtain op1 e1 where rm: "removeRangeLocal C (of_nat (r * 2097153 + src))
                             (of_nat (r * 2097153 + src + n)) ?e = (op1, e1)" by force
  obtain op2 e2 where ins: "insertSegmentLocal C (of_nat (r * 2097153 + dest))
                              (PaddingSegment (of_nat n)) e1 = (op2, e2)" by force
  have rows: "of_nat r < numRows C ?e" using cont lt by simp
  have le: "r * 2097153 + 2097153 \<le> K * 2097153" using lt by linarith
  have a1: "js_add (of_nat (r * 2097153)) (of_nat src) = of_nat (r * 2097153 + src)"
    using b2 lt by (intro js_add_nat) force
  have a2: "js_add (of_nat (r * 2097153)) (of_nat (src + n)) = of_nat (r * 2097153 + src + n)"
    using b2 lt js_add_nat [of "r * 2097153" "src + n"] by (simp add: add.assoc)
  have a3: "js_add (of_nat (r * 2097153)) (of_nat dest) = of_nat (r * 2097153 + dest)"
    using b3 lt by (intro js_add_nat) force
  have a4: "js_add (of_nat r) 1 = of_nat (Suc r)"
    using le b1 js_add_nat [of r 1] by simp
  have a5: "js_add (of_nat (r * 2097153)) maxCols = of_nat (Suc r * 2097153)"
    using le b1 js_add_nat [of "r * 2097153" 2097153] by (simp add: maxCols_eq)
  have one: "spec_rows C src dest n [r] ?e = ([op1, op2], e2)"
    using rm ins by simp
  have st: "snd (spec_rows C src dest n [0..<Suc r] e) = e2"
    by (simp only: spec_rows_snoc_state one snd_conv)
  have up: "[r..<K] = r # [Suc r..<K]" using lt by (rule upt_conv_Cons)
  have ops: "fst (spec_rows C src dest n [r..<K] ?e)
               = [op1, op2] @ fst (spec_rows C src dest n [Suc r..<K] e2)"
    by (simp only: up spec_rows.simps rm ins prod.case append_Cons append_Nil
          split: prod.splits) simp
  have IH: "moveAsPadding_rows C (of_nat src) (of_nat (src + n)) (of_nat dest) (of_nat n)
           (of_nat (Suc r)) (of_nat (Suc r * 2097153)) ((ops @ [op1]) @ [op2])
           (snd (spec_rows C src dest n [0..<Suc r] e))
         = moveAsPadding_rows C (of_nat src) (of_nat (src + n)) (of_nat dest) (of_nat n)
             (of_nat K) (of_nat (K * 2097153))
             (((ops @ [op1]) @ [op2])
                @ fst (spec_rows C src dest n [Suc r..<K]
                         (snd (spec_rows C src dest n [0..<Suc r] e))))
             (snd (spec_rows C src dest n [0..<K] e))"
    using Suc.hyps(2) lt by (intro Suc.hyps(1)) linarith+
  have step: "moveAsPadding_rows C (of_nat src) (of_nat (src + n)) (of_nat dest) (of_nat n)
           (of_nat r) (of_nat (r * 2097153)) ops ?e
         = moveAsPadding_rows C (of_nat src) (of_nat (src + n)) (of_nat dest) (of_nat n)
           (of_nat (Suc r)) (of_nat (Suc r * 2097153)) ((ops @ [op1]) @ [op2]) e2"
    apply (subst moveAsPadding_rows.simps)
    apply (simp only: rows if_True Let_def a1 a2 a3 a4 a5 rm ins prod.case)
    done
  show ?case
    using IH by (simp only: step st ops append_assoc append_Cons append_Nil)
qed


lemma rows_loop:
  assumes stable: "\<forall>r \<le> R. numRows C (snd (spec_rows C src dest n [0..<r] e)) = of_nat R"
    and b1: "R * 2097153 + src + n < 2 ^ 53"
    and b2: "R * 2097153 + dest < 2 ^ 53"
  shows "moveAsPadding_rows C (of_nat src) (of_nat (src + n)) (of_nat dest) (of_nat n) 0 0 [] e
         = Some (spec_rows C src dest n [0..<R] e)"
proof -
  have cont: "\<forall>i < R. of_nat i < numRows C (snd (spec_rows C src dest n [0..<i] e))"
    using stable by simp
  have c1: "R * 2097153 < 2 ^ 53" using b1 by linarith
  have c2: "\<forall>i < R. i * 2097153 + src + n < 2 ^ 53"
  proof (intro allI impI)
    fix i :: nat assume "i < R"
    then have "i * 2097153 \<le> R * 2097153" by simp
    then show "i * 2097153 + src + n < 2 ^ 53" using b1 by linarith
  qed
  have c3: "\<forall>i < R. i * 2097153 + dest < 2 ^ 53"
  proof (intro allI impI)
    fix i :: nat assume "i < R"
    then have "i * 2097153 \<le> R * 2097153" by simp
    then show "i * 2097153 + dest < 2 ^ 53" using b2 by linarith
  qed
  have pre: "moveAsPadding_rows C (of_nat src) (of_nat (src + n)) (of_nat dest) (of_nat n)
           (of_nat 0) (of_nat (0 * 2097153)) [] (snd (spec_rows C src dest n [0..<0] e))
         = moveAsPadding_rows C (of_nat src) (of_nat (src + n)) (of_nat dest) (of_nat n)
             (of_nat R) (of_nat (R * 2097153))
             ([] @ fst (spec_rows C src dest n [0..<R] (snd (spec_rows C src dest n [0..<0] e))))
             (snd (spec_rows C src dest n [0..<R] e))"
    by (rule rows_prefix [OF cont c1 c2 c3]) simp
  have stop: "numRows C (snd (spec_rows C src dest n [0..<R] e)) = of_nat R"
    using stable by simp
  have last: "moveAsPadding_rows C (of_nat src) (of_nat (src + n)) (of_nat dest) (of_nat n)
             (of_nat R) (of_nat (R * 2097153)) (fst (spec_rows C src dest n [0..<R] e))
             (snd (spec_rows C src dest n [0..<R] e))
          = Some (spec_rows C src dest n [0..<R] e)"
    by (subst moveAsPadding_rows.simps) (simp add: stop)
  show ?thesis using pre last by simp
qed


text \<open>
  Where all positions are exact: \<open>insertCols col n\<close> performs, for every existing row
  with \<open>rowStart = r * maxCols\<close>, a removal of \<open>[rowStart + maxCol - n, rowStart + maxCol)\<close>
  followed by the insertion of a fresh padding segment of length \<open>n\<close> at
  \<open>rowStart + col\<close>; \<open>removeCols col n\<close> performs a removal of
  \<open>[rowStart + col, rowStart + col + n)\<close> followed by the insertion of \<open>n\<close> padding at
  \<open>rowStart + maxCol - n\<close>; in both cases what the edits of all rows returned is
  submitted as one grouped operation.  Here the columns lie within \<open>maxCol\<close>, all
  positions are below \<open>2 ^ 53\<close>, and the matrix has \<open>R\<close> rows before and after the
  edit of each row.
\<close>

theorem cols_grouped_row_edits_below_2_53:
  assumes "col + n \<le> 2097152"
    and "R * 2097153 + 2097152 < 2 ^ 53"
    and "\<forall>r \<le> R. numRows C (snd (spec_rows C (2097152 - n) col n [0..<r] e)) = of_nat R"
    and "\<forall>r \<le> R. numRows C (snd (spec_rows C col (2097152 - n) n [0..<r] e)) = of_nat R"
  shows "insertCols C (of_nat col) (of_nat n) e
           = Some (spec_moveAsPadding C (2097152 - n) col n R e) \<and>
         removeCols C (of_nat col) (of_nat n) e
           = Some (spec_moveAsPadding C col (2097152 - n) n R e)"
proof -
  have src: "js_sub maxCol (of_nat n) = of_nat (2097152 - n)"
    using assms(1) js_sub_nat [of n 2097152] by (simp add: maxCol_def)
  have e1: "js_add (of_nat (2097152 - n)) (of_nat n) = of_nat ((2097152 - n) + n)"
    using assms(1) by (intro js_add_nat) simp
  have e2: "js_add (of_nat col) (of_nat n) = of_nat (col + n)"
    using assms(1) by (intro js_add_nat) simp
  have l1: "moveAsPadding_rows C (of_nat (2097152 - n)) (of_nat ((2097152 - n) + n)) (of_nat col)
              (of_nat n) 0 0 [] e
            = Some (spec_rows C (2097152 - n) col n [0..<R] e)"
    using assms(1,2) by (intro rows_loop assms(3)) simp_all
  have l2: "moveAsPadding_rows C (of_nat col) (of_nat (col + n)) (of_nat (2097152 - n))
              (of_nat n) 0 0 [] e
            = Some (spec_rows C col (2097152 - n) n [0..<R] e)"
    using assms(1,2) by (intro rows_loop assms(4)) simp_all
  have "insertCols C (of_nat col) (of_nat n) e
          = Some (spec_moveAsPadding C (2097152 - n) col n R e)"
    by (simp only: insertCols_def moveAsPadding_def Let_def src e1 l1 spec_moveAsPadding_def
          option.case split: prod.splits) simp
  moreover have "removeCols C (of_nat col) (of_nat n) e
          = Some (spec_moveAsPadding C col (2097152 - n) n R e)"
    by (simp only: removeCols_def moveAsPadding_def Let_def src e2 l2 spec_moveAsPadding_def
          option.case split: prod.splits) simp
  ultimately show ?thesis by simp
qed

lemma one_row: "fst (positionToRowCol 2097153) = 1"
  by code_simp

theorem cols_grouped_row_edits_below_2_53_witness:
  "insertCols list_client 2 3
     ([RunSegment [''A'', ''B'', ''C'', ''D'', ''E''] [None, None, None, None, None],
       PaddingSegment 2097148], [])
   = Some ([RunSegment [''A'', ''B''] [None, None], PaddingSegment 3,
            RunSegment [''C'', ''D'', ''E''] [None, None, None],
            PaddingSegment 2097144, PaddingSegment 1],
           [GroupOp [Some (RemoveRangeOp 2097149 2097152),
                     Some (InsertSegmentOp 2 (PaddingSegment 3))]]) \<and>
   removeCols list_client 2 3
     ([RunSegment [''A'', ''B'', ''C'', ''D'', ''E''] [None, None, None, None, None],
       PaddingSegment 2097148], [])
   = Some ([RunSegment [''A'', ''B''] [None, None], PaddingSegment 2097147,
            PaddingSegment 3, PaddingSegment 1],
           [GroupOp [Some (RemoveRangeOp 2 5),
                     Some (InsertSegmentOp 2097149 (PaddingSegment 3))]])"
proof -
  let ?e = "([RunSegment [''A'', ''B'', ''C'', ''D'', ''E''] [None, None, None, None, None],
              PaddingSegment 2097148], []) :: MatrixSegment list \<times> matrix_op list"
  have h1: "(2::nat) + 3 \<le> 2097152" by simp
  have h2: "(1::nat) * 2097153 + 2097152 < 2 ^ 53" by simp
  have r01: "r = 0 \<or> r = 1" if "r \<le> 1" for r :: nat using that by linarith
  have h3: "\<forall>r \<le> 1. numRows list_client
              (snd (spec_rows list_client (2097152 - 3) 2 3 [0..<r] ?e)) = of_nat 1"
  proof (intro allI impI)
    fix r :: nat assume "r \<le> 1"
    then consider "r = 0" | "r = 1" using r01 by blast
    then show "numRows list_client
              (snd (spec_rows list_client (2097152 - 3) 2 3 [0..<r] ?e)) = of_nat 1"
      by cases (simp_all add: numRows_def list_client_def one_row)
  qed
  have h4: "\<forall>r \<le> 1. numRows list_client
              (snd (spec_rows list_client 2 (2097152 - 3) 3 [0..<r] ?e)) = of_nat 1"
  proof (intro allI impI)
    fix r :: nat assume "r \<le> 1"
    then consider "r = 0" | "r = 1" using r01 by blast
    then show "numRows list_client
              (snd (spec_rows list_client 2 (2097152 - 3) 3 [0..<r] ?e)) = of_nat 1"
      by cases (simp_all add: numRows_def list_client_def one_row)
  qed
  show ?thesis
    using cols_grouped_row_edits_below_2_53 [OF h1 h2 h3 h4]
    by (simp add: spec_moveAsPadding_def list_client_def)
qed

subsection \<open>Rows whose positions exceed \<open>2 ^ 53\<close>\<close>

















section \<open>Non-local events\<close>

text \<open>
  C9: for every delta event whose locality flag is false the Handler's callback changes
  nothing: no Revertable is created, nothing is pushed to the stack manager, the map from
  sequences to Revertables is unchanged and no entry is recorded.
\<close>

theorem nonlocal_event_ignored:
  assumes "\<not> isLocal event"
  shows "sequenceDeltaHandler event target H = H"
  using assms by (simp add: sequenceDeltaHandler_def)

theorem nonlocal_event_ignored_witness:
  "\<not> isLocal \<lparr>isLocal = False, deltaOperation = INSERT,
               ranges = [\<lparr>segment = 4, propertyDeltas = None\<rparr>]\<rparr> \<and>
   sequenceDeltaHandler
     \<lparr>isLocal = False, deltaOperation = INSERT,
      ranges = [\<lparr>segment = 4, propertyDeltas = None\<rparr>]\<rparr> 0
     \<lparr>sequences = [], pushed = [], revertables = [], h_links = [], h_fresh_tg = 0\<rparr>
   = \<lparr>sequences = [], pushed = [], revertables = [], h_links = [], h_fresh_tg = 0\<rparr>"
  using nonlocal_event_ignored
    [of "\<lparr>isLocal = False, deltaOperation = INSERT,
          ranges = [\<lparr>segment = 4, propertyDeltas = None\<rparr>]\<rparr>" 0
        "\<lparr>sequences = [], pushed = [], revertables = [], h_links = [], h_fresh_tg = 0\<rparr>"]
  by simp

end
